theory Spec2Isabelle
  imports Main "HOL-Library.Word" "HOL-Library.Sublist"
begin

unbundle bit_operations_syntax

section \<open>JavaScript strings\<close>

text \<open>
  A JavaScript string is a sequence of UTF-16 code units; \<open>charCodeAt\<close>, \<open>length\<close>,
  \<open>includes\<close>, \<open>===\<close> and the regular expressions of the dashboard (none has the
  \<open>u\<close> flag) all work on code units. String literals of the source are ASCII and are
  written through \<open>js\<close>.
\<close>

type_synonym jsstring = "16 word list"

definition js :: "string \<Rightarrow> jsstring" where
  "js s = map of_char s"

text \<open>
  \<open>x || d\<close> on a value that is a string or \<open>undefined\<close> (\<open>None\<close>): the empty
  string and \<open>undefined\<close> are the falsy ones.
\<close>

definition truthy :: "jsstring option \<Rightarrow> bool" where
  "truthy x = (case x of None \<Rightarrow> False | Some s \<Rightarrow> s \<noteq> [])"

definition orElse :: "jsstring option \<Rightarrow> jsstring \<Rightarrow> jsstring" where
  "orElse x d = (case x of None \<Rightarrow> d | Some s \<Rightarrow> if s = [] then d else s)"

text \<open>\<open>Number.prototype.toString\<close> on a non-negative integer and on an integer.\<close>

fun decimal :: "nat \<Rightarrow> jsstring" where
  "decimal n = (if n < 10 then [48 + of_nat n]
                else decimal (n div 10) @ [48 + of_nat (n mod 10)])"

declare decimal.simps [simp del]

definition intToString :: "int \<Rightarrow> jsstring" where
  "intToString i = (if i < 0 then 45 # decimal (nat (- i)) else decimal (nat i))"

section \<open>Rows and records\<close>

text \<open>
  PapaParse runs with \<open>header: true\<close> and \<open>dynamicTyping: false\<close>: a row is an object
  from (transformed) header names to strings. A column the file does not have reads as
  \<open>undefined\<close>.
\<close>

type_synonym labRecord = "jsstring \<rightharpoonup> jsstring"

abbreviation f_id :: jsstring where "f_id \<equiv> js ''id''"
abbreviation f_marker :: jsstring where "f_marker \<equiv> js ''marker''"
abbreviation f_provider :: jsstring where "f_provider \<equiv> js ''provider''"
abbreviation f_date :: jsstring where "f_date \<equiv> js ''date''"
abbreviation f_value :: jsstring where "f_value \<equiv> js ''value''"

section \<open>generateStableId\<close>

text \<open>
  Numbers that the bitwise operators produce are 32-bit signed integers: \<open>toInt32\<close> is
  the conversion they apply to their operands, \<open>shiftLeft\<close> is \<open>x << n\<close> and
  \<open>bitAnd\<close> is \<open>x & y\<close>. The subtraction and the addition between them are exact,
  the operands being far below \<open>2 ^ 53\<close>.
\<close>

definition toInt32 :: "int \<Rightarrow> int" where
  "toInt32 x = (let m = x mod 2 ^ 32 in if 2 ^ 31 \<le> m then m - 2 ^ 32 else m)"

definition shiftLeft :: "int \<Rightarrow> nat \<Rightarrow> int" where
  "shiftLeft x n = toInt32 (toInt32 x * 2 ^ (n mod 32))"

definition bitAnd :: "int \<Rightarrow> int \<Rightarrow> int" where
  "bitAnd x y = toInt32 (toInt32 x AND toInt32 y)"

definition hashStep :: "int \<Rightarrow> 16 word \<Rightarrow> int" where
  "hashStep hash char = (let hash1 = (shiftLeft hash 5 - hash) + uint char
                         in bitAnd hash1 hash1)"

definition generateStableId :: "labRecord \<Rightarrow> jsstring" where
  "generateStableId record =
     (let key = orElse (record f_date) [] @ js ''|'' @ orElse (record f_provider) [] @ js ''|''
                @ orElse (record f_marker) [] @ js ''|'' @ orElse (record f_value) [];
          hash = foldl hashStep 0 key
      in decimal (nat \<bar>hash\<bar>))"

text \<open>
  The body of the \<open>results.data.map\<close> callback of \<open>parseCSVData\<close> (one row), and
  the whole map.
\<close>

definition addStableId :: "labRecord \<Rightarrow> labRecord" where
  "addStableId row =
     (let id = (if truthy (row f_id) then the (row f_id) else generateStableId row)
      in row(f_id \<mapsto> id))"

definition processRows :: "labRecord list \<Rightarrow> labRecord list" where
  "processRows rows = map addStableId rows"

subsection \<open>The synthetic id as the specification words it\<close>

text \<open>
  The composite key \<open>date|provider|marker|value\<close> with the empty string for a missing
  component, and the polynomial rolling hash \<open>hash = hash * 31 + code\<close> on 32-bit words.
\<close>

definition component :: "labRecord \<Rightarrow> jsstring \<Rightarrow> jsstring" where
  "component r k = (case r k of None \<Rightarrow> [] | Some s \<Rightarrow> s)"

definition compositeKey :: "labRecord \<Rightarrow> jsstring" where
  "compositeKey r = component r f_date @ [124] @ component r f_provider @ [124]
                    @ component r f_marker @ [124] @ component r f_value"

definition rollingHash32 :: "jsstring \<Rightarrow> 32 word" where
  "rollingHash32 key = foldl (\<lambda>hash code. hash * 31 + ucast code) 0 key"

definition syntheticId :: "labRecord \<Rightarrow> jsstring" where
  "syntheticId r = decimal (nat \<bar>sint (rollingHash32 (compositeKey r))\<bar>)"

definition idAbsent :: "labRecord \<Rightarrow> bool" where
  "idAbsent r = (r f_id = None \<or> r f_id = Some [])"

section \<open>The host: \<open>String.prototype.toLowerCase\<close> and \<open>Date\<close>\<close>

text \<open>
  What the JavaScript engine defines, and the repository does not, is taken as a
  parameter. \<open>toLowerCase\<close> is the Unicode lower-casing of the engine.
  \<open>newDate s\<close> is \<open>new Date(s)\<close>: \<open>None\<close> when \<open>getTime()\<close> is \<open>NaN\<close>, otherwise
  the local calendar year and the month index (0 to 11) that \<open>getFullYear()\<close> and
  \<open>getMonth()\<close> return; which strings beyond the ISO format parse is up to the engine.
  \<open>functionText k\<close> is the source text that the built-in function
  \<open>Object.prototype[k]\<close> converts to when a number is added to it.
  \<open>sortInconsistent\<close> is the order in which \<open>Array.prototype.sort\<close> leaves the entries
  of a count table when the comparator is not a consistent one, which ECMAScript leaves
  to the implementation.
\<close>

record jsDate =
  getFullYear :: int
  getMonth :: nat

text \<open>A cell of the count table holds a number or, after a string concatenation, a string.\<close>

datatype cell = Count nat | Text jsstring

record host =
  toLowerCase :: "jsstring \<Rightarrow> jsstring"
  newDate :: "jsstring \<Rightarrow> jsDate option"
  functionText :: "jsstring \<Rightarrow> jsstring"
  sortInconsistent :: "(jsstring \<times> cell) list \<Rightarrow> (jsstring \<times> cell) list"

section \<open>Header normalisation\<close>

definition HEADER_ALIASES :: "(jsstring \<times> jsstring list) list" where
  "HEADER_ALIASES =
    [(js ''id'', [js ''id'', js ''uid'', js ''recordid'']),
     (js ''marker'', [js ''marker'', js ''test'', js ''name'', js ''testname'']),
     (js ''provider'', [js ''provider'', js ''doctor'', js ''physician'']),
     (js ''date'', [js ''date'', js ''sampledate'', js ''specimendate'', js ''testdate'']),
     (js ''value'', [js ''value'', js ''result'', js ''testvalue'']),
     (js ''reference_range'',
        [js ''reference'', js ''referencerange'', js ''refrange'', js ''range'']),
     (js ''lab'', [js ''lab'', js ''laboratory'']),
     (js ''source_file'', [js ''sourcefile'', js ''source'', js ''file''])]"

text \<open>The character class \<open>[a-z0-9]\<close>, and \<open>\d\<close>.\<close>

definition isDigit :: "16 word \<Rightarrow> bool" where
  "isDigit c = (48 \<le> c \<and> c \<le> 57)"

definition isLowerAlnum :: "16 word \<Rightarrow> bool" where
  "isLowerAlnum c = ((97 \<le> c \<and> c \<le> 122) \<or> isDigit c)"

text \<open>
  The class \<open>\s\<close>, which is also what \<open>trim\<close> strips: the white space and line
  terminator code units of ECMAScript.
\<close>

definition isWhiteSpace :: "16 word \<Rightarrow> bool" where
  "isWhiteSpace c = (c \<in> set [9, 10, 11, 12, 13, 32, 160, 5760, 8232, 8233, 8239, 8287, 12288,
                                65279] \<or> (8192 \<le> c \<and> c \<le> 8202))"

definition trim :: "jsstring \<Rightarrow> jsstring" where
  "trim s = rev (dropWhile isWhiteSpace (rev (dropWhile isWhiteSpace s)))"

text \<open>\<open>s.replace(/\s+/g, '_')\<close>: every maximal run of white space becomes one underscore.\<close>

function replaceWhitespaceRuns :: "jsstring \<Rightarrow> jsstring" where
  "replaceWhitespaceRuns [] = []"
| "replaceWhitespaceRuns (c # cs) =
     (if isWhiteSpace c then 95 # replaceWhitespaceRuns (dropWhile isWhiteSpace cs)
      else c # replaceWhitespaceRuns cs)"
  by pat_completeness auto
termination
  by (relation "measure length") (auto simp: less_Suc_eq_le length_dropWhile_le)

definition normalizeHeader :: "host \<Rightarrow> jsstring \<Rightarrow> jsstring" where
  "normalizeHeader H header = filter isLowerAlnum (toLowerCase H header)"

text \<open>
  The \<open>for ... of Object.entries(HEADER_ALIASES)\<close> loop of \<open>mapHeader\<close>, returning at
  the first entry one of whose aliases normalises to the token.
\<close>

fun firstCanonical :: "host \<Rightarrow> jsstring \<Rightarrow> (jsstring \<times> jsstring list) list \<Rightarrow> jsstring option" where
  "firstCanonical H normalized [] = None"
| "firstCanonical H normalized ((canonical, aliases) # rest) =
     (if list_ex (\<lambda>alias. normalizeHeader H alias = normalized) aliases then Some canonical
      else firstCanonical H normalized rest)"

definition mapHeader :: "host \<Rightarrow> jsstring \<Rightarrow> jsstring" where
  "mapHeader H header =
     (let normalized = normalizeHeader H header
      in case firstCanonical H normalized HEADER_ALIASES of
           Some canonical \<Rightarrow> canonical
         | None \<Rightarrow> replaceWhitespaceRuns (toLowerCase H (trim header)))"

section \<open>Date classification\<close>

text \<open>
  \<open>dateStr.match(/(\d{4})/)\<close>: the match is tried at every start position from the left,
  and succeeds where the next four code units are digits; group 1 is those four.
\<close>

fun matchFourDigits :: "jsstring \<Rightarrow> jsstring option" where
  "matchFourDigits [] = None"
| "matchFourDigits (c # cs) =
     (if 4 \<le> length (c # cs) \<and> list_all isDigit (take 4 (c # cs)) then Some (take 4 (c # cs))
      else matchFourDigits cs)"

definition padStart :: "jsstring \<Rightarrow> nat \<Rightarrow> 16 word \<Rightarrow> jsstring" where
  "padStart s n c = replicate (n - length s) c @ s"

definition extractYear :: "host \<Rightarrow> jsstring option \<Rightarrow> jsstring" where
  "extractYear H dateStr =
     (case dateStr of
        None \<Rightarrow> js ''Unknown''
      | Some s \<Rightarrow>
          if s = [] then js ''Unknown''
          else (case newDate H s of
                  Some isoDate \<Rightarrow> intToString (getFullYear isoDate)
                | None \<Rightarrow> (case matchFourDigits s of
                             Some m \<Rightarrow> m
                           | None \<Rightarrow> js ''Unknown'')))"

definition extractYearMonth :: "host \<Rightarrow> jsstring option \<Rightarrow> jsstring" where
  "extractYearMonth H dateStr =
     (case dateStr of
        None \<Rightarrow> js ''Unknown''
      | Some s \<Rightarrow>
          if s = [] then js ''Unknown''
          else (case newDate H s of
                  Some isoDate \<Rightarrow>
                    (let year = getFullYear isoDate;
                         month = padStart (decimal (getMonth isoDate + 1)) 2 48
                     in intToString year @ js ''-'' @ month)
                | None \<Rightarrow> js ''Unknown''))"

section \<open>Aggregation: the top markers\<close>

text \<open>
  \<open>markerCounts\<close> is an ordinary object created by \<open>{}\<close>: it is modelled by the list
  of its own properties in creation order, and it inherits the properties of
  \<open>Object.prototype\<close>, whose keys are these.
\<close>

definition objectPrototypeKeys :: "jsstring list" where
  "objectPrototypeKeys =
     [js ''constructor'', js ''__defineGetter__'', js ''__defineSetter__'',
      js ''hasOwnProperty'', js ''__lookupGetter__'', js ''__lookupSetter__'',
      js ''isPrototypeOf'', js ''propertyIsEnumerable'', js ''toString'', js ''valueOf'',
      js ''__proto__'', js ''toLocaleString'']"

text \<open>
  The value of \<open>(markerCounts[marker] || 0) + 1\<close>, given the own cell of the marker if
  there is one. An own count becomes the next count and an own string gets \<open>1\<close>
  appended. Without an own cell the read goes to \<open>Object.prototype\<close>: for
  \<open>__proto__\<close> it returns that object, for the other inherited keys a built-in
  function; both are truthy and adding 1 concatenates their text with \<open>1\<close>. A marker
  that is not inherited either reads \<open>undefined\<close> and the value is 1.
\<close>

definition incremented :: "host \<Rightarrow> jsstring \<Rightarrow> cell option \<Rightarrow> cell" where
  "incremented H marker own =
     (case own of
        Some (Count n) \<Rightarrow> Count (n + 1)
      | Some (Text s) \<Rightarrow> if s = [] then Count 1 else Text (s @ js ''1'')
      | None \<Rightarrow>
          if marker = js ''__proto__'' then Text (js ''[object Object]1'')
          else if marker \<in> set objectPrototypeKeys then Text (functionText H marker @ js ''1'')
          else Count 1)"

text \<open>
  The assignment to \<open>markerCounts[marker]\<close>: an own cell is overwritten in place and a
  new one is created last. For \<open>__proto__\<close> the assignment calls the inherited setter,
  which ignores a value that is not an object: the table stays as it is.
\<close>

fun setProperty :: "jsstring \<Rightarrow> cell \<Rightarrow> (jsstring \<times> cell) list \<Rightarrow> (jsstring \<times> cell) list" where
  "setProperty marker v [] = [(marker, v)]"
| "setProperty marker v ((k, c) # rest) =
     (if k = marker then (k, v) # rest else (k, c) # setProperty marker v rest)"

definition increment :: "host \<Rightarrow> jsstring \<Rightarrow> (jsstring \<times> cell) list \<Rightarrow> (jsstring \<times> cell) list" where
  "increment H marker markerCounts =
     (let v = incremented H marker (map_of markerCounts marker)
      in if marker = js ''__proto__'' then markerCounts else setProperty marker v markerCounts)"

text \<open>
  \<open>Object.entries\<close> lists the own properties whose key is an array index (the canonical
  decimal numeral of an integer from 0 to \<open>2 ^ 32 - 2\<close>) first, in ascending numeric
  order, and then the other keys in creation order.
\<close>

definition digitsValue :: "jsstring \<Rightarrow> nat" where
  "digitsValue s = foldl (\<lambda>a c. 10 * a + (unat c - 48)) 0 s"

definition isArrayIndex :: "jsstring \<Rightarrow> bool" where
  "isArrayIndex k = (k \<noteq> [] \<and> list_all isDigit k \<and> (k = [48] \<or> hd k \<noteq> 48)
                     \<and> digitsValue k < 2 ^ 32 - 1)"

definition objectEntries :: "(jsstring \<times> 'v) list \<Rightarrow> (jsstring \<times> 'v) list" where
  "objectEntries props =
     sort_key (\<lambda>e. digitsValue (fst e)) (filter (\<lambda>e. isArrayIndex (fst e)) props)
     @ filter (\<lambda>e. \<not> isArrayIndex (fst e)) props"

record chartData =
  labels :: "jsstring list"
  counts :: "cell list"

text \<open>
  \<open>entries.sort(([, a], [, b]) => b - a)\<close>. \<open>Array.prototype.sort\<close> is stable, and on
  cells that all hold counts the comparator is a consistent one: the result is the
  stable sort by descending count. On a cell that holds a string the comparator is
  \<open>NaN\<close> and the order is the engine's.
\<close>

definition isCount :: "cell \<Rightarrow> bool" where
  "isCount c = (case c of Count n \<Rightarrow> True | Text s \<Rightarrow> False)"

definition countOf :: "cell \<Rightarrow> nat" where
  "countOf c = (case c of Count n \<Rightarrow> n | Text s \<Rightarrow> 0)"

definition sortEntries :: "host \<Rightarrow> (jsstring \<times> cell) list \<Rightarrow> (jsstring \<times> cell) list" where
  "sortEntries H entries =
     (if list_all (\<lambda>e. isCount (snd e)) entries
      then sort_key (\<lambda>e. - int (countOf (snd e))) entries
      else sortInconsistent H entries)"

definition markerOf :: "labRecord \<Rightarrow> jsstring" where
  "markerOf record = orElse (record f_marker) (js ''Unknown'')"

definition aggregateTopMarkers :: "host \<Rightarrow> labRecord list \<Rightarrow> nat \<Rightarrow> chartData" where
  "aggregateTopMarkers H data topN =
     (let markerCounts = foldl (\<lambda>markerCounts record. increment H (markerOf record) markerCounts)
                               [] data;
          sorted = take topN (sortEntries H (objectEntries markerCounts))
      in \<lparr>labels = map fst sorted, counts = map snd sorted\<rparr>)"

section \<open>The dashboard state\<close>

record papaError =
  errorType :: jsstring
  errorCode :: jsstring
  errorMessage :: jsstring
  errorRow :: nat

record dashboard =
  data :: "labRecord list"
  filteredData :: "labRecord list"
  searchTerm :: jsstring
  selectedProvider :: jsstring
  selectedYear :: jsstring
  error :: jsstring
  isLoading :: bool
  parseErrors :: "papaError list"

subsection \<open>applyFilters\<close>

text \<open>\<open>s.includes(t)\<close>.\<close>

fun str_includes :: "jsstring \<Rightarrow> jsstring \<Rightarrow> bool" where
  "str_includes [] t = (t = [])"
| "str_includes (c # cs) t = (prefix t (c # cs) \<or> str_includes cs t)"

definition applyFilters :: "host \<Rightarrow> dashboard \<Rightarrow> dashboard" where
  "applyFilters H st =
     (let filtered = data st;
          filtered =
            (if searchTerm st \<noteq> [] then
               (let term = toLowerCase H (searchTerm st)
                in filter (\<lambda>record.
                     str_includes (toLowerCase H (orElse (record f_marker) [])) term \<or>
                     str_includes (toLowerCase H (orElse (record f_value) [])) term \<or>
                     str_includes (toLowerCase H (orElse (record f_provider) [])) term) filtered)
             else filtered);
          filtered =
            (if selectedProvider st \<noteq> js ''All''
             then filter (\<lambda>record. record f_provider = Some (selectedProvider st)) filtered
             else filtered);
          filtered =
            (if selectedYear st \<noteq> js ''All''
             then filter (\<lambda>record. extractYear H (record f_date) = selectedYear st) filtered
             else filtered)
      in st\<lparr>filteredData := filtered\<rparr>)"

subsection \<open>yearList\<close>

text \<open>\<open>Array.from(new Set(xs))\<close>: the distinct elements in order of first occurrence.\<close>

fun newSet :: "'a list \<Rightarrow> 'a list" where
  "newSet [] = []"
| "newSet (x # xs) = x # filter (\<lambda>y. y \<noteq> x) (newSet xs)"

text \<open>
  \<open>parseInt(s)\<close> without a radix: leading white space is skipped, then a sign, then a
  \<open>0x\<close> or \<open>0X\<close> prefix selects radix 16; the longest run of digits of the radix is read,
  and the result is \<open>NaN\<close> (\<open>None\<close>) when that run is empty.
\<close>

definition radixDigit :: "nat \<Rightarrow> 16 word \<Rightarrow> nat option" where
  "radixDigit R c =
     (let v = (if isDigit c then Some (unat c - 48)
               else if 97 \<le> c \<and> c \<le> 122 then Some (unat c - 87)
               else if 65 \<le> c \<and> c \<le> 90 then Some (unat c - 55)
               else None)
      in case v of None \<Rightarrow> None | Some d \<Rightarrow> if d < R then Some d else None)"

definition parseInt :: "jsstring \<Rightarrow> int option" where
  "parseInt s =
     (let t = dropWhile isWhiteSpace s;
          sign = (if t \<noteq> [] \<and> hd t = 45 then - 1 else 1 :: int);
          u = (if t \<noteq> [] \<and> (hd t = 45 \<or> hd t = 43) then tl t else t);
          hex = (2 \<le> length u \<and> hd u = 48 \<and> (u ! 1 = 120 \<or> u ! 1 = 88));
          R = (if hex then 16 else 10);
          v = (if hex then drop 2 u else u);
          z = takeWhile (\<lambda>c. radixDigit R c \<noteq> None) v
      in if z = [] then None
         else Some (sign * int (foldl (\<lambda>a c. R * a + the (radixDigit R c)) 0 z)))"

text \<open>
  \<open>ys.sort((a, b) => parseInt(b) - parseInt(a))\<close>: the stable sort by descending
  \<open>parseInt\<close> when every element parses; with a \<open>NaN\<close> the comparator is inconsistent
  and the order is left to the engine (\<open>None\<close>).
\<close>

definition sortByParseIntDesc :: "jsstring list \<Rightarrow> jsstring list option" where
  "sortByParseIntDesc ys =
     (if list_all (\<lambda>y. parseInt y \<noteq> None) ys
      then Some (sort_key (\<lambda>y. - the (parseInt y)) ys) else None)"

definition yearList :: "host \<Rightarrow> dashboard \<Rightarrow> jsstring list option" where
  "yearList H st =
     (let yearArray = newSet (map (\<lambda>record. extractYear H (record f_date)) (data st));
          hasUnknown = (js ''Unknown'' \<in> set yearArray)
      in case sortByParseIntDesc (filter (\<lambda>y. y \<noteq> js ''Unknown'') yearArray) of
           None \<Rightarrow> None
         | Some numericYears \<Rightarrow>
             Some (js ''All'' # numericYears @ (if hasUnknown then [js ''Unknown''] else [])))"

subsection \<open>parseCSVData\<close>

text \<open>
  \<open>Papa.parse\<close> is a library outside the repository and is a parameter: for a text it
  either calls \<open>complete\<close> with the rows and the row errors, or calls \<open>error\<close> with a
  message.
\<close>

record papaResults =
  resultData :: "labRecord list"
  resultErrors :: "papaError list"

datatype papaOutcome = Complete papaResults | Failed jsstring

definition complete :: "papaResults \<Rightarrow> dashboard \<Rightarrow> dashboard" where
  "complete results st =
     (let st = st\<lparr>isLoading := False\<rparr>;
          st = (if resultErrors results \<noteq> []
                then st\<lparr>parseErrors := take 5 (resultErrors results)\<rparr> else st)
      in if resultData results = []
         then st\<lparr>error := js ''No data found in the CSV file.''\<rparr>
         else st\<lparr>data := processRows (resultData results)\<rparr>)"

definition onError :: "jsstring \<Rightarrow> jsstring \<Rightarrow> dashboard \<Rightarrow> dashboard" where
  "onError filename msg st =
     st\<lparr>isLoading := False, error := js ''Failed to parse '' @ filename @ js '': '' @ msg\<rparr>"

definition parseCSVData ::
  "(jsstring \<Rightarrow> papaOutcome) \<Rightarrow> jsstring \<Rightarrow> jsstring \<Rightarrow> dashboard \<Rightarrow> dashboard" where
  "parseCSVData papaParse csvText filename st =
     (let st = st\<lparr>isLoading := True, error := [], parseErrors := []\<rparr>
      in case papaParse csvText of
           Complete results \<Rightarrow> complete results st
         | Failed msg \<Rightarrow> onError filename msg st)"

subsection \<open>clearData\<close>

definition clearData :: "dashboard \<Rightarrow> dashboard" where
  "clearData st =
     st\<lparr>data := [], filteredData := [], searchTerm := [], selectedProvider := js ''All'',
        selectedYear := js ''All'', error := [], parseErrors := []\<rparr>"

section \<open>The filter as the specification words it\<close>

text \<open>
  A term is a case-insensitive substring of a text when its lower-casing occurs, as a
  contiguous run, in the lower-casing of the text. A missing field is the empty text.
\<close>

definition caseInsensitiveSubstring :: "host \<Rightarrow> jsstring \<Rightarrow> jsstring \<Rightarrow> bool" where
  "caseInsensitiveSubstring H term text = sublist (toLowerCase H term) (toLowerCase H text)"

definition matchesSearch :: "host \<Rightarrow> jsstring \<Rightarrow> labRecord \<Rightarrow> bool" where
  "matchesSearch H term r =
     (term = [] \<or> (\<exists>k \<in> {f_marker, f_value, f_provider}.
                       caseInsensitiveSubstring H term (component r k)))"

definition matchesProvider :: "jsstring \<Rightarrow> labRecord \<Rightarrow> bool" where
  "matchesProvider sel r = (sel = js ''All'' \<or> r f_provider = Some sel)"

definition matchesYear :: "host \<Rightarrow> jsstring \<Rightarrow> labRecord \<Rightarrow> bool" where
  "matchesYear H sel r = (sel = js ''All'' \<or> extractYear H (r f_date) = sel)"

definition matchesSpec :: "host \<Rightarrow> dashboard \<Rightarrow> labRecord \<Rightarrow> bool" where
  "matchesSpec H st r = (matchesSearch H (searchTerm st) r \<and> matchesProvider (selectedProvider st) r
                         \<and> matchesYear H (selectedYear st) r)"

section \<open>The date classifier as the specification words it\<close>

text \<open>
  Four consecutive digits start at position \<open>i\<close> of \<open>s\<close>; and the rendering of a number
  below 100 with two digits, zero-padded.
\<close>

definition fourDigitsAt :: "jsstring \<Rightarrow> nat \<Rightarrow> bool" where
  "fourDigitsAt s i = (i + 4 \<le> length s \<and> list_all isDigit (take 4 (drop i s)))"

definition twoDigits :: "nat \<Rightarrow> jsstring" where
  "twoDigits n = [48 + of_nat (n div 10), 48 + of_nat (n mod 10)]"

text \<open>
  A run of exactly four consecutive digits starts at position \<open>i\<close>: four digits with no
  digit before them and none after them. The year that the specification's fallback
  names is the first such run, and \<open>Unknown\<close> when the string has none.
\<close>

definition exactRunAt :: "jsstring \<Rightarrow> nat \<Rightarrow> bool" where
  "exactRunAt s i = (fourDigitsAt s i \<and> (i = 0 \<or> \<not> isDigit (s ! (i - 1)))
                     \<and> (i + 4 = length s \<or> \<not> isDigit (s ! (i + 4))))"

definition firstExactRun :: "jsstring \<Rightarrow> jsstring option" where
  "firstExactRun s = map_option (\<lambda>i. take 4 (drop i s)) (find (exactRunAt s) [0 ..< length s])"

definition fallbackYearAsStated :: "jsstring \<Rightarrow> jsstring" where
  "fallbackYearAsStated s = (case firstExactRun s of Some m \<Rightarrow> m | None \<Rightarrow> js ''Unknown'')"

section \<open>Header normalisation as the specification words it\<close>

text \<open>
  The alias set of the \<open>j\<close>-th canonical key, its members normalised like the header,
  contains the token.
\<close>

definition aliasSetContains :: "host \<Rightarrow> jsstring \<Rightarrow> nat \<Rightarrow> bool" where
  "aliasSetContains H token j = (token \<in> normalizeHeader H ` set (snd (HEADER_ALIASES ! j)))"

section \<open>The top markers as the specification words them\<close>

text \<open>
  The position of the first occurrence of a marker among the markers of the records;
  and, for a list of (marker, count) entries: every entry counts the occurrences of its
  marker and no marker has two entries; the counts do not increase along the list;
  entries with equal counts stand in a given order of their markers; every marker that
  is left out has a count no greater than that of any entry, and on an equal count
  comes after the entry in the given order.
\<close>

fun firstIndex :: "'a list \<Rightarrow> 'a \<Rightarrow> nat" where
  "firstIndex [] a = 0"
| "firstIndex (x # xs) a = (if x = a then 0 else Suc (firstIndex xs a))"

definition countsOccurrences :: "jsstring list \<Rightarrow> (jsstring \<times> nat) list \<Rightarrow> bool" where
  "countsOccurrences ms es =
     (distinct (map fst es) \<and>
      list_all (\<lambda>e. fst e \<in> set ms \<and> snd e = count_list ms (fst e)) es)"

definition sortedByCountDesc :: "(jsstring \<times> nat) list \<Rightarrow> bool" where
  "sortedByCountDesc es = sorted_wrt (\<lambda>e e'. snd e' \<le> snd e) es"

definition tiesOrdered :: "(jsstring \<Rightarrow> jsstring \<Rightarrow> bool) \<Rightarrow> (jsstring \<times> nat) list \<Rightarrow> bool" where
  "tiesOrdered before es = sorted_wrt (\<lambda>e e'. snd e = snd e' \<longrightarrow> before (fst e) (fst e')) es"

definition leftOutRankLower ::
  "(jsstring \<Rightarrow> jsstring \<Rightarrow> bool) \<Rightarrow> jsstring list \<Rightarrow> (jsstring \<times> nat) list \<Rightarrow> bool" where
  "leftOutRankLower before ms es =
     (\<forall>m \<in> set ms - fst ` set es. \<forall>e \<in> set es.
        count_list ms m \<le> snd e \<and> (count_list ms m = snd e \<longrightarrow> before (fst e) m))"

text \<open>First-encountered order, and the order in which an object enumerates its keys.\<close>

definition firstEncounteredBefore :: "jsstring list \<Rightarrow> jsstring \<Rightarrow> jsstring \<Rightarrow> bool" where
  "firstEncounteredBefore ms a b = (firstIndex ms a < firstIndex ms b)"

definition enumeratedBefore :: "jsstring list \<Rightarrow> jsstring \<Rightarrow> jsstring \<Rightarrow> bool" where
  "enumeratedBefore ms a b =
     (if isArrayIndex a then (isArrayIndex b \<longrightarrow> digitsValue a \<le> digitsValue b)
      else (\<not> isArrayIndex b \<and> firstIndex ms a < firstIndex ms b))"

text \<open>
  The chart is the top \<open>n\<close> of the markers of the records: its cells are counts, it has
  \<open>n\<close> entries, or one for every distinct marker when these are fewer, and its entries
  are the first ones of the ranking by descending count, ties in the given order.
\<close>

definition topMarkersSpec ::
  "(jsstring list \<Rightarrow> jsstring \<Rightarrow> jsstring \<Rightarrow> bool) \<Rightarrow> labRecord list \<Rightarrow> nat \<Rightarrow> chartData \<Rightarrow> bool"
  where
  "topMarkersSpec before records n chart =
     (let ms = map markerOf records; es = zip (labels chart) (map countOf (counts chart))
      in length (labels chart) = length (counts chart) \<and> list_all isCount (counts chart) \<and>
         length (labels chart) = min n (card (set ms)) \<and>
         countsOccurrences ms es \<and> sortedByCountDesc es \<and> tiesOrdered (before ms) es \<and>
         leftOutRankLower (before ms) ms es)"

section \<open>Sample data\<close>

text \<open>
  A host for the worked examples: it lower-cases the ASCII letters, parses the calendar
  dates \<open>YYYY-MM-DD\<close> only, read in UTC, prints a built-in function in the usual way
  and leaves a list in its order when the comparator is inconsistent.
\<close>

definition asciiLower :: "16 word \<Rightarrow> 16 word" where
  "asciiLower c = (if 65 \<le> c \<and> c \<le> 90 then c + 32 else c)"

definition isoDate :: "jsstring \<Rightarrow> jsDate option" where
  "isoDate s =
     (if length s = 10 \<and> list_all isDigit (take 4 s) \<and> s ! 4 = 45
         \<and> list_all isDigit (take 2 (drop 5 s)) \<and> s ! 7 = 45 \<and> list_all isDigit (drop 8 s)
         \<and> 1 \<le> digitsValue (take 2 (drop 5 s)) \<and> digitsValue (take 2 (drop 5 s)) \<le> 12
      then Some \<lparr>getFullYear = int (digitsValue (take 4 s)),
                 getMonth = digitsValue (take 2 (drop 5 s)) - 1\<rparr>
      else None)"

definition sampleHost :: host where
  "sampleHost = \<lparr>toLowerCase = map asciiLower, newDate = isoDate,
                  functionText = (\<lambda>k. js ''function ''
                                       @ (if k = js ''constructor'' then js ''Object'' else k)
                                       @ js ''() { [native code] }''),
                  sortInconsistent = (\<lambda>entries. entries)\<rparr>"

definition glucoseRow :: labRecord where
  "glucoseRow = [f_marker \<mapsto> js ''Glucose'', f_value \<mapsto> js ''95'',
                 f_provider \<mapsto> js ''Dr. Jones'', f_date \<mapsto> js ''2024-02-20'']"

definition wbcRow :: labRecord where
  "wbcRow = [f_id \<mapsto> js ''1'', f_date \<mapsto> js ''2024-07-15'', f_marker \<mapsto> js ''WBC'',
             f_value \<mapsto> js ''6.5'', f_provider \<mapsto> js ''Dr. Smith'']"

definition sampleState :: dashboard where
  "sampleState = \<lparr>data = [glucoseRow, wbcRow], filteredData = [], searchTerm = js ''GLU'',
                   selectedProvider = js ''Dr. Jones'', selectedYear = js ''2024'', error = [],
                   isLoading = False, parseErrors = []\<rparr>"

definition ferritinRow :: labRecord where
  "ferritinRow = [f_date \<mapsto> js ''2025-01-10'', f_marker \<mapsto> js ''Ferritin'',
                  f_value \<mapsto> js ''80'', f_provider \<mapsto> js ''Dr. Smith'']"

definition undatedRow :: labRecord where
  "undatedRow = [f_date \<mapsto> js ''n/a'', f_marker \<mapsto> js ''Glucose'', f_value \<mapsto> js ''101'']"

definition yearsState :: dashboard where
  "yearsState = sampleState\<lparr>data := [glucoseRow, undatedRow, ferritinRow, wbcRow]\<rparr>"

text \<open>Two records whose markers are numeric test codes.\<close>

definition code4544Row :: labRecord where
  "code4544Row = [f_marker \<mapsto> js ''4544'', f_value \<mapsto> js ''41'']"

definition code718Row :: labRecord where
  "code718Row = [f_marker \<mapsto> js ''718'', f_value \<mapsto> js ''13.5'']"

text \<open>A record whose marker is a key that every object inherits.\<close>

definition protoRow :: labRecord where
  "protoRow = [f_marker \<mapsto> js ''__proto__'', f_value \<mapsto> js ''7'']"

definition toStringRow :: labRecord where
  "toStringRow = [f_marker \<mapsto> js ''toString'', f_value \<mapsto> js ''3'']"

section \<open>Properties\<close>

subsection \<open>The 32-bit arithmetic of the hash\<close>

lemma wrap_signed:
  fixes x K :: int
  assumes "0 < K"
  shows "(x + K) mod (2 * K) - K
         = (if K \<le> x mod (2 * K) then x mod (2 * K) - 2 * K else x mod (2 * K))"
proof -
  define m where "m = x mod (2 * K)"
  have m: "0 \<le> m" "m < 2 * K" using assms by (simp_all add: m_def)
  have e: "(x + K) mod (2 * K) = (m + K) mod (2 * K)"
    unfolding m_def by (simp add: mod_add_left_eq)
  show ?thesis
  proof (cases "K \<le> m")
    case True
    have "(m + K) mod (2 * K) = (m - K + 2 * K) mod (2 * K)" by (simp add: algebra_simps)
    also have "\<dots> = (m - K) mod (2 * K)" by (rule mod_add_self2)
    also have "\<dots> = m - K" using True m by (intro mod_pos_pos_trivial) simp_all
    finally show ?thesis using True unfolding e m_def [symmetric] by simp
  next
    case False
    have "(m + K) mod (2 * K) = m + K" using False m by (intro mod_pos_pos_trivial) simp_all
    then show ?thesis using False unfolding e m_def [symmetric] by simp
  qed
qed

lemma toInt32_sint: "toInt32 x = sint (word_of_int x :: 32 word)"
proof -
  have "sint (word_of_int x :: 32 word) = (x + 2 ^ 31) mod (2 * 2 ^ 31) - 2 ^ 31"
    by (simp add: int_word_sint)
  also have "\<dots> = toInt32 x"
    unfolding toInt32_def Let_def using wrap_signed [of "2 ^ 31" x] by simp
  finally show ?thesis by simp
qed

lemma word_of_int_toInt32: "(word_of_int (toInt32 x) :: 32 word) = word_of_int x"
  by (simp add: toInt32_sint)

lemma bitAnd_same: "bitAnd x x = toInt32 x"
  by (simp add: bitAnd_def toInt32_sint)

lemma shiftLeft5_word: "(word_of_int (shiftLeft x 5) :: 32 word) = word_of_int x * 32"
proof -
  have "(word_of_int (shiftLeft x 5) :: 32 word) = word_of_int (toInt32 x * 32)"
    unfolding shiftLeft_def word_of_int_toInt32 by simp
  also have "\<dots> = word_of_int (toInt32 x) * 32" by simp
  finally show ?thesis unfolding word_of_int_toInt32 .
qed

lemma step_word:
  "(word_of_int ((shiftLeft (sint w) 5 - sint w) + uint c) :: 32 word)
   = w * 31 + ucast (c :: 16 word)"
proof -
  have "(word_of_int ((shiftLeft (sint w) 5 - sint w) + uint c) :: 32 word)
        = word_of_int (shiftLeft (sint w) 5) - word_of_int (sint w) + word_of_int (uint c)"
    by simp
  also have "\<dots> = w * 32 - w + ucast c"
    unfolding shiftLeft5_word by simp
  also have "\<dots> = w * 31 + ucast c" by simp
  finally show ?thesis .
qed

lemma hashStep_word: "hashStep (sint (w :: 32 word)) c = sint (w * 31 + ucast c)"
  unfolding hashStep_def Let_def bitAnd_same toInt32_sint step_word ..

lemma foldl_hashStep_word:
  "foldl hashStep (sint (w :: 32 word)) key
   = sint (foldl (\<lambda>hash code. hash * 31 + ucast code) w key)"
  by (induction key arbitrary: w) (simp_all add: hashStep_word)

lemma foldl_hashStep_rollingHash32: "foldl hashStep 0 key = sint (rollingHash32 key)"
  using foldl_hashStep_word [of 0 key] by (simp add: rollingHash32_def)

subsection \<open>Synthetic ids\<close>

lemma orElse_component: "orElse (r k) [] = component r k"
  by (simp add: orElse_def component_def split: option.split)

lemma generateStableId_syntheticId: "generateStableId r = syntheticId r"
  by (simp add: generateStableId_def syntheticId_def compositeKey_def Let_def
      orElse_component foldl_hashStep_rollingHash32 js_def)

lemma decimal_nonempty: "decimal n \<noteq> []"
  by (subst decimal.simps) simp

lemma truthy_idAbsent: "truthy (r f_id) = (\<not> idAbsent r)"
  by (auto simp: truthy_def idAbsent_def split: option.split)

lemma syntheticId_cong:
  "r f_date = r' f_date \<Longrightarrow> r f_provider = r' f_provider \<Longrightarrow> r f_marker = r' f_marker
   \<Longrightarrow> r f_value = r' f_value \<Longrightarrow> syntheticId r = syntheticId r'"
  by (simp add: syntheticId_def compositeKey_def component_def)

lemma addStableId_id:
  "addStableId row f_id = Some (if idAbsent row then syntheticId row else the (row f_id))"
  by (simp add: addStableId_def Let_def truthy_idAbsent generateStableId_syntheticId)

lemma idAbsent_cong: "r f_id = r' f_id \<Longrightarrow> idAbsent r = idAbsent r'"
  by (simp add: idAbsent_def)

lemma addStableId_id_cong:
  assumes "\<forall>k \<in> {f_id, f_date, f_provider, f_marker, f_value}. r k = r' k"
  shows "addStableId r f_id = addStableId r' f_id"
proof -
  have i: "r f_id = r' f_id" and d: "r f_date = r' f_date" and p: "r f_provider = r' f_provider"
    and m: "r f_marker = r' f_marker" and v: "r f_value = r' f_value"
    using assms by blast+
  show ?thesis
    unfolding addStableId_id
    using i idAbsent_cong [of r r'] syntheticId_cong [of r r'] d p m v by simp
qed

lemma glucoseRow_syntheticId: "syntheticId glucoseRow = js ''171839217''"
  unfolding generateStableId_syntheticId [symmetric]
  by (simp add: generateStableId_def orElse_def glucoseRow_def hashStep_def shiftLeft_def
      bitAnd_def toInt32_def js_def decimal.simps)

text \<open>
  C1. When a row has no id, or an empty one, the id that materialisation gives it is the
  decimal numeral of the absolute value of the signed 32-bit polynomial hash
  \<open>hash = hash * 31 + code\<close> over the UTF-16 code units of \<open>date|provider|marker|value\<close>
  (a missing component being the empty string). The ids that materialisation produces
  are a function of the id, date, provider, marker and value columns alone, so that
  materialising the same input again gives the same ids, row by row.
\<close>

theorem synthetic_id_rolling_hash:
  "(idAbsent row \<longrightarrow> addStableId row f_id = Some (syntheticId row)) \<and>
   (list_all2 (\<lambda>r r'. \<forall>k \<in> {f_id, f_date, f_provider, f_marker, f_value}. r k = r' k) rows rows'
      \<longrightarrow> map (\<lambda>r. r f_id) (processRows rows) = map (\<lambda>r. r f_id) (processRows rows'))"
proof (intro conjI impI)
  assume "idAbsent row"
  then show "addStableId row f_id = Some (syntheticId row)"
    by (simp add: addStableId_id)
next
  assume "list_all2 (\<lambda>r r'. \<forall>k \<in> {f_id, f_date, f_provider, f_marker, f_value}. r k = r' k)
            rows rows'"
  then show "map (\<lambda>r. r f_id) (processRows rows) = map (\<lambda>r. r f_id) (processRows rows')"
  proof (induction rule: list_all2_induct)
    case Nil
    show ?case by (simp add: processRows_def)
  next
    case (Cons r rs r' rs')
    from Cons.hyps(1) have "addStableId r f_id = addStableId r' f_id"
      by (rule addStableId_id_cong)
    with Cons.IH show ?case by (simp add: processRows_def)
  qed
qed

theorem synthetic_id_rolling_hash_witness:
  "idAbsent glucoseRow \<and> addStableId glucoseRow f_id = Some (js ''171839217'') \<and>
   list_all2 (\<lambda>r r'. \<forall>k \<in> {f_id, f_date, f_provider, f_marker, f_value}. r k = r' k)
     [glucoseRow, wbcRow] [glucoseRow(js ''lab'' \<mapsto> js ''Quest''), wbcRow] \<and>
   map (\<lambda>r. r f_id) (processRows [glucoseRow, wbcRow])
     = map (\<lambda>r. r f_id) (processRows [glucoseRow(js ''lab'' \<mapsto> js ''Quest''), wbcRow])"
proof -
  have a: "idAbsent glucoseRow"
    by (simp add: idAbsent_def glucoseRow_def js_def)
  have l: "list_all2 (\<lambda>r r'. \<forall>k \<in> {f_id, f_date, f_provider, f_marker, f_value}. r k = r' k)
             [glucoseRow, wbcRow] [glucoseRow(js ''lab'' \<mapsto> js ''Quest''), wbcRow]"
    by (simp add: js_def)
  note t = synthetic_id_rolling_hash
    [of glucoseRow "[glucoseRow, wbcRow]" "[glucoseRow(js ''lab'' \<mapsto> js ''Quest''), wbcRow]"]
  from t a have "addStableId glucoseRow f_id = Some (syntheticId glucoseRow)" by blast
  moreover from t l
  have "map (\<lambda>r. r f_id) (processRows [glucoseRow, wbcRow])
        = map (\<lambda>r. r f_id) (processRows [glucoseRow(js ''lab'' \<mapsto> js ''Quest''), wbcRow])"
    by blast
  ultimately show ?thesis using a l by (simp only: glucoseRow_syntheticId simp_thms)
qed

subsection \<open>Materialised ids are never empty\<close>

lemma syntheticId_reads_four:
  assumes "\<forall>k \<in> {f_date, f_provider, f_marker, f_value}. r k = r' k"
  shows "syntheticId r = syntheticId r'"
proof -
  have "r f_date = r' f_date" "r f_provider = r' f_provider" "r f_marker = r' f_marker"
    "r f_value = r' f_value"
    using assms by blast+
  then show ?thesis by (rule syntheticId_cong)
qed

lemma addStableId_other: "k \<noteq> f_id \<Longrightarrow> addStableId row k = row k"
  by (simp add: addStableId_def Let_def)

lemma syntheticId_nonempty: "syntheticId r \<noteq> []"
  by (simp add: syntheticId_def decimal_nonempty)

lemma addStableId_record:
  "\<exists>i. addStableId row f_id = Some i \<and> i \<noteq> [] \<and>
       (\<forall>s. row f_id = Some s \<and> s \<noteq> [] \<longrightarrow> i = s) \<and>
       (idAbsent row \<longrightarrow> i = syntheticId row) \<and>
       (\<forall>k. k \<noteq> f_id \<longrightarrow> addStableId row k = row k)"
proof (cases "idAbsent row")
  case True
  then show ?thesis
    using syntheticId_nonempty [of row] addStableId_other [of _ row]
    by (auto simp: addStableId_id idAbsent_def)
next
  case False
  then obtain s where "row f_id = Some s" "s \<noteq> []"
    by (auto simp: idAbsent_def)
  with False show ?thesis
    using addStableId_other [of _ row] by (auto simp: addStableId_id)
qed

text \<open>
  C2. Every materialised record has a non-empty id. A non-empty id that the row supplies
  is kept as it is; a row with a missing or empty id gets the synthetic id, the decimal
  numeral of the hash of its date, provider, marker and value, which depends on nothing
  else in the row. The other fields of the row are copied. Materialising a list of rows
  does this to every row, at its position.
\<close>

theorem record_id_nonempty:
  "(\<exists>i. addStableId row f_id = Some i \<and> i \<noteq> [] \<and>
        (\<forall>s. row f_id = Some s \<and> s \<noteq> [] \<longrightarrow> i = s) \<and>
        (idAbsent row \<longrightarrow> i = syntheticId row) \<and>
        (\<forall>k. k \<noteq> f_id \<longrightarrow> addStableId row k = row k)) \<and>
   ((\<forall>k \<in> {f_date, f_provider, f_marker, f_value}. row k = row' k)
      \<longrightarrow> syntheticId row = syntheticId row') \<and>
   length (processRows rows) = length rows \<and>
   (\<forall>n < length rows.
      \<exists>i. (processRows rows ! n) f_id = Some i \<and> i \<noteq> [] \<and>
          (\<forall>s. (rows ! n) f_id = Some s \<and> s \<noteq> [] \<longrightarrow> i = s) \<and>
          (idAbsent (rows ! n) \<longrightarrow> i = syntheticId (rows ! n)) \<and>
          (\<forall>k. k \<noteq> f_id \<longrightarrow> (processRows rows ! n) k = (rows ! n) k))"
proof (intro conjI allI impI)
  show "\<exists>i. addStableId row f_id = Some i \<and> i \<noteq> [] \<and>
        (\<forall>s. row f_id = Some s \<and> s \<noteq> [] \<longrightarrow> i = s) \<and>
        (idAbsent row \<longrightarrow> i = syntheticId row) \<and>
        (\<forall>k. k \<noteq> f_id \<longrightarrow> addStableId row k = row k)"
    by (rule addStableId_record)
next
  assume "\<forall>k \<in> {f_date, f_provider, f_marker, f_value}. row k = row' k"
  then show "syntheticId row = syntheticId row'" by (rule syntheticId_reads_four)
next
  show "length (processRows rows) = length rows" by (simp add: processRows_def)
next
  fix n assume "n < length rows"
  then have "processRows rows ! n = addStableId (rows ! n)" by (simp add: processRows_def)
  then show "\<exists>i. (processRows rows ! n) f_id = Some i \<and> i \<noteq> [] \<and>
          (\<forall>s. (rows ! n) f_id = Some s \<and> s \<noteq> [] \<longrightarrow> i = s) \<and>
          (idAbsent (rows ! n) \<longrightarrow> i = syntheticId (rows ! n)) \<and>
          (\<forall>k. k \<noteq> f_id \<longrightarrow> (processRows rows ! n) k = (rows ! n) k)"
    using addStableId_record [of "rows ! n"] by simp
qed

lemma wbcRow_id: "wbcRow f_id = Some (js ''1'')"
  by (simp add: wbcRow_def js_def)

theorem record_id_nonempty_witness:
  "wbcRow f_id = Some (js ''1'') \<and> js ''1'' \<noteq> [] \<and> addStableId wbcRow f_id = Some (js ''1'') \<and>
   idAbsent glucoseRow \<and> addStableId glucoseRow f_id = Some (js ''171839217'') \<and>
   f_date \<noteq> f_id \<and> addStableId glucoseRow f_date = Some (js ''2024-02-20'') \<and>
   glucoseRow f_date = (glucoseRow(f_id \<mapsto> js ''7'')) f_date \<and>
   glucoseRow f_provider = (glucoseRow(f_id \<mapsto> js ''7'')) f_provider \<and>
   glucoseRow f_marker = (glucoseRow(f_id \<mapsto> js ''7'')) f_marker \<and>
   glucoseRow f_value = (glucoseRow(f_id \<mapsto> js ''7'')) f_value \<and>
   syntheticId glucoseRow = syntheticId (glucoseRow(f_id \<mapsto> js ''7'')) \<and>
   (1::nat) < length [glucoseRow, wbcRow] \<and>
   (processRows [glucoseRow, wbcRow] ! 0) f_id = Some (js ''171839217'') \<and>
   (processRows [glucoseRow, wbcRow] ! 1) f_id = Some (js ''1'')"
proof -
  have n: "js ''1'' \<noteq> []" "f_date \<noteq> f_id" by (simp_all add: js_def)
  have a: "idAbsent glucoseRow" by (simp add: idAbsent_def glucoseRow_def js_def)
  have d: "glucoseRow f_date = Some (js ''2024-02-20'')" by (simp add: glucoseRow_def js_def)
  have e: "\<forall>k \<in> {f_date, f_provider, f_marker, f_value}.
             glucoseRow k = (glucoseRow(f_id \<mapsto> js ''7'')) k"
    by (simp add: js_def)
  have e': "glucoseRow f_date = (glucoseRow(f_id \<mapsto> js ''7'')) f_date"
    "glucoseRow f_provider = (glucoseRow(f_id \<mapsto> js ''7'')) f_provider"
    "glucoseRow f_marker = (glucoseRow(f_id \<mapsto> js ''7'')) f_marker"
    "glucoseRow f_value = (glucoseRow(f_id \<mapsto> js ''7'')) f_value"
    using e by blast+
  have l: "(0::nat) < length [glucoseRow, wbcRow]" "(1::nat) < length [glucoseRow, wbcRow]"
    by simp_all
  have r: "[glucoseRow, wbcRow] ! 0 = glucoseRow" "[glucoseRow, wbcRow] ! 1 = wbcRow"
    by simp_all
  note w = record_id_nonempty [of wbcRow wbcRow "[glucoseRow, wbcRow]"]
  note g = record_id_nonempty
    [of glucoseRow "glucoseRow(f_id \<mapsto> js ''7'')" "[glucoseRow, wbcRow]"]
  from w wbcRow_id n(1) have 1: "addStableId wbcRow f_id = Some (js ''1'')" by metis
  from g a have 2: "addStableId glucoseRow f_id = Some (js ''171839217'')"
    unfolding glucoseRow_syntheticId [symmetric] by metis
  from g n(2) have "addStableId glucoseRow f_date = glucoseRow f_date" by metis
  then have 3: "addStableId glucoseRow f_date = Some (js ''2024-02-20'')" using d by simp
  from g e have 4: "syntheticId glucoseRow = syntheticId (glucoseRow(f_id \<mapsto> js ''7''))"
    by blast
  from g l(1) obtain i where i: "(processRows [glucoseRow, wbcRow] ! 0) f_id = Some i"
    "idAbsent ([glucoseRow, wbcRow] ! 0) \<longrightarrow> i = syntheticId ([glucoseRow, wbcRow] ! 0)"
    by blast
  with a have 5: "(processRows [glucoseRow, wbcRow] ! 0) f_id = Some (js ''171839217'')"
    unfolding r glucoseRow_syntheticId by simp
  from w l(2) obtain i' where i': "(processRows [glucoseRow, wbcRow] ! 1) f_id = Some i'"
    "\<forall>s. ([glucoseRow, wbcRow] ! 1) f_id = Some s \<and> s \<noteq> [] \<longrightarrow> i' = s"
    by blast
  with wbcRow_id n(1) have 6: "(processRows [glucoseRow, wbcRow] ! 1) f_id = Some (js ''1'')"
    unfolding r by simp
  show ?thesis using wbcRow_id n 1 a 2 3 e' 4 l(2) 5 6 by blast
qed

subsection \<open>The filter\<close>


lemma str_includes_sublist: "str_includes s t = sublist t s"
  by (induction s) (simp_all add: sublist_Cons_right)

lemma matchesSearch_code:
  "matchesSearch H term r =
     (if term \<noteq> [] then
        str_includes (toLowerCase H (orElse (r f_marker) [])) (toLowerCase H term) \<or>
        str_includes (toLowerCase H (orElse (r f_value) [])) (toLowerCase H term) \<or>
        str_includes (toLowerCase H (orElse (r f_provider) [])) (toLowerCase H term)
      else True)"
  by (auto simp: matchesSearch_def caseInsensitiveSubstring_def str_includes_sublist
      orElse_component)

lemma matchesProvider_code:
  "matchesProvider sel r = (if sel \<noteq> js ''All'' then r f_provider = Some sel else True)"
  by (simp add: matchesProvider_def)

lemma matchesYear_code:
  "matchesYear H sel r = (if sel \<noteq> js ''All'' then extractYear H (r f_date) = sel else True)"
  by (simp add: matchesYear_def)

lemma applyFilters_filter:
  "filteredData (applyFilters H st) = filter (matchesSpec H st) (data st)"
  unfolding applyFilters_def Let_def matchesSpec_def matchesSearch_code matchesProvider_code
    matchesYear_code
  by (cases "searchTerm st \<noteq> []"; cases "selectedProvider st \<noteq> js ''All''";
      cases "selectedYear st \<noteq> js ''All''") simp_all

text \<open>
  C3. The filter keeps exactly the records that satisfy all three of: the search term is
  empty or is a case-insensitive substring of the marker, the value or the provider; the
  selected provider is \<open>All\<close> or is the record's provider; the selected year is \<open>All\<close>
  or is the year the record's date classifies to.
\<close>

theorem applyFilters_conjunction:
  "filteredData (applyFilters H st)
   = filter (\<lambda>r. matchesSearch H (searchTerm st) r \<and> matchesProvider (selectedProvider st) r
                  \<and> matchesYear H (selectedYear st) r) (data st)"
  using applyFilters_filter [of H st] by (simp add: matchesSpec_def [abs_def])

lemma glucoseRow_year: "extractYear sampleHost (glucoseRow f_date) = js ''2024''"
  by (simp add: extractYear_def glucoseRow_def sampleHost_def isoDate_def js_def isDigit_def
      digitsValue_def intToString_def decimal.simps)

lemma glucose_matches:
  "matchesSearch sampleHost (js ''GLU'') glucoseRow \<and> matchesProvider (js ''Dr. Jones'') glucoseRow"
  by (simp add: matchesSearch_def caseInsensitiveSubstring_def component_def glucoseRow_def
      sampleHost_def asciiLower_def js_def matchesProvider_def sublist_Cons_right)

lemma wbc_no_match: "\<not> matchesSearch sampleHost (js ''GLU'') wbcRow"
  by (simp add: matchesSearch_def caseInsensitiveSubstring_def component_def wbcRow_def
      sampleHost_def asciiLower_def js_def sublist_Cons_right)

theorem applyFilters_conjunction_witness:
  "matchesSearch sampleHost (searchTerm sampleState) glucoseRow \<and>
   matchesProvider (selectedProvider sampleState) glucoseRow \<and>
   matchesYear sampleHost (selectedYear sampleState) glucoseRow \<and>
   \<not> matchesSearch sampleHost (searchTerm sampleState) wbcRow \<and>
   data sampleState = [glucoseRow, wbcRow] \<and>
   filteredData (applyFilters sampleHost sampleState) = [glucoseRow]"
proof -
  have y: "matchesYear sampleHost (js ''2024'') glucoseRow"
    by (simp add: matchesYear_def glucoseRow_year)
  have f: "filteredData (applyFilters sampleHost sampleState)
           = filter (\<lambda>r. matchesSearch sampleHost (searchTerm sampleState) r
                          \<and> matchesProvider (selectedProvider sampleState) r
                          \<and> matchesYear sampleHost (selectedYear sampleState) r) (data sampleState)"
    by (rule applyFilters_conjunction)
  show ?thesis
    unfolding f using glucose_matches wbc_no_match y by (simp add: sampleState_def)
qed

lemma applyFilters_data: "data (applyFilters H st) = data st"
  by (simp add: applyFilters_def Let_def)

lemma matchesSpec_identity:
  "searchTerm st = [] \<Longrightarrow> selectedProvider st = js ''All'' \<Longrightarrow> selectedYear st = js ''All''
   \<Longrightarrow> matchesSpec H st r"
  by (simp add: matchesSpec_def matchesSearch_def matchesProvider_def matchesYear_def)

text \<open>
  C4. The filtered list is a subsequence of the record list: records are dropped, never
  duplicated, reordered or changed, and the record list itself is left as it was. With
  an empty search term and both selections \<open>All\<close> the filtered list is the whole record
  list.
\<close>

theorem applyFilters_subsequence:
  "subseq (filteredData (applyFilters H st)) (data st) \<and>
   data (applyFilters H st) = data st \<and>
   (searchTerm st = [] \<and> selectedProvider st = js ''All'' \<and> selectedYear st = js ''All''
      \<longrightarrow> filteredData (applyFilters H st) = data st)"
proof (intro conjI impI)
  show "subseq (filteredData (applyFilters H st)) (data st)"
    unfolding applyFilters_filter by (rule subseq_filter_left)
  show "data (applyFilters H st) = data st"
    by (rule applyFilters_data)
next
  assume "searchTerm st = [] \<and> selectedProvider st = js ''All'' \<and> selectedYear st = js ''All''"
  then have "\<forall>r \<in> set (data st). matchesSpec H st r"
    using matchesSpec_identity by blast
  then show "filteredData (applyFilters H st) = data st"
    unfolding applyFilters_filter by (simp add: filter_id_conv)
qed

theorem applyFilters_subsequence_witness:
  "searchTerm (sampleState\<lparr>searchTerm := [], selectedProvider := js ''All'',
                           selectedYear := js ''All''\<rparr>) = [] \<and>
   filteredData (applyFilters sampleHost
      (sampleState\<lparr>searchTerm := [], selectedProvider := js ''All'', selectedYear := js ''All''\<rparr>))
   = [glucoseRow, wbcRow] \<and>
   subseq (filteredData (applyFilters sampleHost sampleState)) [glucoseRow, wbcRow]"
proof -
  let ?st = "sampleState\<lparr>searchTerm := [], selectedProvider := js ''All'',
                          selectedYear := js ''All''\<rparr>"
  have h: "searchTerm ?st = [] \<and> selectedProvider ?st = js ''All'' \<and> selectedYear ?st = js ''All''"
    by simp
  have d: "data ?st = [glucoseRow, wbcRow]" "data sampleState = [glucoseRow, wbcRow]"
    by (simp_all add: sampleState_def)
  from applyFilters_subsequence [of sampleHost ?st] h
  have 1: "filteredData (applyFilters sampleHost ?st) = data ?st" by blast
  from applyFilters_subsequence [of sampleHost sampleState]
  have 2: "subseq (filteredData (applyFilters sampleHost sampleState)) (data sampleState)"
    by blast
  show ?thesis using h 1 2 unfolding d by blast
qed

subsection \<open>Loading and clearing\<close>

lemma complete_empty:
  "resultData results = [] \<Longrightarrow>
   error (complete results st) = js ''No data found in the CSV file.'' \<and>
   data (complete results st) = data st \<and> filteredData (complete results st) = filteredData st"
  by (simp add: complete_def Let_def)

lemma complete_nonempty:
  "resultData results \<noteq> [] \<Longrightarrow>
   error (complete results st) = error st \<and>
   data (complete results st) = processRows (resultData results)"
  by (simp add: complete_def Let_def)

lemma no_data_message_distinct:
  "js ''No data found in the CSV file.'' \<noteq> js ''Failed to parse '' @ filename @ js '': '' @ msg"
  by (simp add: js_def)

text \<open>
  C8. When the parse completes with no data rows, the error message becomes
  \<open>No data found in the CSV file.\<close> and the record list (and the filtered list) stay as
  they were. The message is distinct: it is not empty, no failed parse produces it, and a
  parse that completes with rows leaves the error message empty.
\<close>

theorem empty_parse_keeps_records:
  "papaParse csvText = Complete results \<Longrightarrow>
   (resultData results = [] \<longrightarrow>
      error (parseCSVData papaParse csvText filename st) = js ''No data found in the CSV file.'' \<and>
      data (parseCSVData papaParse csvText filename st) = data st \<and>
      filteredData (parseCSVData papaParse csvText filename st) = filteredData st) \<and>
   (resultData results \<noteq> [] \<longrightarrow> error (parseCSVData papaParse csvText filename st) = []) \<and>
   js ''No data found in the CSV file.'' \<noteq> [] \<and>
   (\<forall>name msg st'. error (onError name msg st') \<noteq> js ''No data found in the CSV file.'')"
proof (intro conjI impI allI)
  assume c: "papaParse csvText = Complete results"
  {
    assume e: "resultData results = []"
    show "error (parseCSVData papaParse csvText filename st) = js ''No data found in the CSV file.''"
      using c complete_empty [OF e] by (simp add: parseCSVData_def Let_def)
    show "data (parseCSVData papaParse csvText filename st) = data st"
      using c complete_empty [OF e] by (simp add: parseCSVData_def Let_def)
    show "filteredData (parseCSVData papaParse csvText filename st) = filteredData st"
      using c complete_empty [OF e] by (simp add: parseCSVData_def Let_def)
  }
  {
    assume n: "resultData results \<noteq> []"
    show "error (parseCSVData papaParse csvText filename st) = []"
      using c complete_nonempty [OF n] by (simp add: parseCSVData_def Let_def)
  }
  show "js ''No data found in the CSV file.'' \<noteq> []" by (simp add: js_def)
  show "error (onError name msg st') \<noteq> js ''No data found in the CSV file.''" for name msg st'
    using no_data_message_distinct [of name msg] by (simp add: onError_def)
qed

theorem empty_parse_keeps_records_witness:
  "(\<lambda>text. Complete \<lparr>resultData = [], resultErrors = []\<rparr>) (js ''id,marker'')
     = Complete \<lparr>resultData = [], resultErrors = []\<rparr> \<and>
   resultData \<lparr>resultData = [], resultErrors = []\<rparr> = [] \<and>
   error (parseCSVData (\<lambda>text. Complete \<lparr>resultData = [], resultErrors = []\<rparr>) (js ''id,marker'')
            (js ''labs.csv'') sampleState) = js ''No data found in the CSV file.'' \<and>
   data (parseCSVData (\<lambda>text. Complete \<lparr>resultData = [], resultErrors = []\<rparr>) (js ''id,marker'')
            (js ''labs.csv'') sampleState) = [glucoseRow, wbcRow] \<and>
   resultData \<lparr>resultData = [glucoseRow], resultErrors = []\<rparr> \<noteq> [] \<and>
   error (parseCSVData (\<lambda>text. Complete \<lparr>resultData = [glucoseRow], resultErrors = []\<rparr>)
            (js ''id,marker'') (js ''labs.csv'') sampleState) = []"
proof -
  let ?e = "\<lparr>resultData = [], resultErrors = []\<rparr>"
  let ?g = "\<lparr>resultData = [glucoseRow], resultErrors = []\<rparr>"
  have c: "(\<lambda>text. Complete ?e) (js ''id,marker'') = Complete ?e"
    and c': "(\<lambda>text. Complete ?g) (js ''id,marker'') = Complete ?g" by simp_all
  have e: "resultData ?e = []" and g: "resultData ?g \<noteq> []" by simp_all
  have d: "data sampleState = [glucoseRow, wbcRow]" by (simp add: sampleState_def)
  note t = empty_parse_keeps_records [OF c, where filename = "js ''labs.csv''" and st = sampleState]
  note t' = empty_parse_keeps_records [OF c', where filename = "js ''labs.csv''" and st = sampleState]
  from t e have 1: "error (parseCSVData (\<lambda>text. Complete ?e) (js ''id,marker'') (js ''labs.csv'')
                      sampleState) = js ''No data found in the CSV file.''"
    and 2: "data (parseCSVData (\<lambda>text. Complete ?e) (js ''id,marker'') (js ''labs.csv'')
                      sampleState) = data sampleState"
    by blast+
  from t' g have 3: "error (parseCSVData (\<lambda>text. Complete ?g) (js ''id,marker'') (js ''labs.csv'')
                      sampleState) = []"
    by blast
  show ?thesis using c e 1 2 g 3 unfolding d by blast
qed

text \<open>
  C10. After \<open>clearData\<close> the record list and the filtered list are empty, the search
  term is empty, both selections are \<open>All\<close>, and the error message and the parse
  warnings are cleared. The loading flag is the one component it leaves as it was.
\<close>

theorem clearData_resets:
  "data (clearData st) = [] \<and> filteredData (clearData st) = [] \<and> searchTerm (clearData st) = [] \<and>
   selectedProvider (clearData st) = js ''All'' \<and> selectedYear (clearData st) = js ''All'' \<and>
   error (clearData st) = [] \<and> parseErrors (clearData st) = [] \<and>
   isLoading (clearData st) = isLoading st"
  by (simp add: clearData_def)

subsection \<open>The date classifier\<close>

lemma fourDigitsAt_Cons_Suc: "fourDigitsAt (c # cs) (Suc i) = fourDigitsAt cs i"
  by (simp add: fourDigitsAt_def add.commute)

lemma matchFourDigits_Cons:
  "matchFourDigits (c # cs) =
     (if fourDigitsAt (c # cs) 0 then Some (take 4 (c # cs)) else matchFourDigits cs)"
  by (simp add: fourDigitsAt_def)

lemma matchFourDigits_first:
  "fourDigitsAt s i \<Longrightarrow> (\<forall>j<i. \<not> fourDigitsAt s j) \<Longrightarrow> matchFourDigits s = Some (take 4 (drop i s))"
proof (induction s arbitrary: i)
  case Nil
  then show ?case by (simp add: fourDigitsAt_def)
next
  case (Cons c cs)
  show ?case
  proof (cases i)
    case 0
    with Cons.prems(1) show ?thesis by (simp add: matchFourDigits_Cons del: matchFourDigits.simps)
  next
    case (Suc k)
    from Cons.prems(2) Suc have n: "\<not> fourDigitsAt (c # cs) 0" by blast
    from Cons.prems(1) Suc have a: "fourDigitsAt cs k" by (simp add: fourDigitsAt_Cons_Suc)
    have b: "\<forall>j<k. \<not> fourDigitsAt cs j"
    proof (intro allI impI)
      fix j assume "j < k"
      then have "Suc j < i" using Suc by simp
      with Cons.prems(2) have "\<not> fourDigitsAt (c # cs) (Suc j)" by blast
      then show "\<not> fourDigitsAt cs j" by (simp add: fourDigitsAt_Cons_Suc)
    qed
    from Cons.IH [OF a b] n Suc show ?thesis
      by (simp add: matchFourDigits_Cons del: matchFourDigits.simps)
  qed
qed

lemma matchFourDigits_none: "(\<forall>i. \<not> fourDigitsAt s i) \<Longrightarrow> matchFourDigits s = None"
proof (induction s)
  case Nil
  show ?case by simp
next
  case (Cons c cs)
  have "\<forall>i. \<not> fourDigitsAt cs i"
  proof
    fix i
    from Cons.prems have "\<not> fourDigitsAt (c # cs) (Suc i)" by blast
    then show "\<not> fourDigitsAt cs i" by (simp add: fourDigitsAt_Cons_Suc)
  qed
  moreover from Cons.prems have "\<not> fourDigitsAt (c # cs) 0" by blast
  ultimately show ?case
    using Cons.IH by (simp add: matchFourDigits_Cons del: matchFourDigits.simps)
qed

lemma decimal_small: "n < 10 \<Longrightarrow> decimal n = [48 + of_nat n]"
  by (subst decimal.simps) simp

lemma decimal_two: "10 \<le> n \<Longrightarrow> n < 100 \<Longrightarrow> decimal n = twoDigits n"
  by (subst decimal.simps) (simp add: decimal_small twoDigits_def)

lemma padStart_month: "n < 100 \<Longrightarrow> padStart (decimal n) 2 48 = twoDigits n"
proof (cases "n < 10")
  case True
  then show ?thesis by (simp add: padStart_def decimal_small twoDigits_def)
next
  case False
  assume "n < 100"
  with False show ?thesis by (simp add: padStart_def decimal_two) (simp add: twoDigits_def)
qed

lemma q1_four_digits:
  "fourDigitsAt (js ''Q1 2024'') 3 \<and> (\<forall>j<3. \<not> fourDigitsAt (js ''Q1 2024'') j)"
proof (intro conjI allI impI)
  show "fourDigitsAt (js ''Q1 2024'') 3"
    by (simp add: fourDigitsAt_def js_def isDigit_def)
  fix j :: nat
  assume "j < 3"
  then consider "j = 0" | "j = 1" | "j = 2" by linarith
  then show "\<not> fourDigitsAt (js ''Q1 2024'') j"
    by cases (simp_all add: fourDigitsAt_def js_def isDigit_def)
qed

lemma sample_newDate:
  "newDate sampleHost (js ''Q1 2024'') = None \<and> newDate sampleHost (js ''n/a'') = None \<and>
   newDate sampleHost (js ''2024-02-20'') = Some \<lparr>getFullYear = 2024, getMonth = 1\<rparr>"
  by (simp add: sampleHost_def isoDate_def js_def isDigit_def digitsValue_def)

subsection \<open>Header normalisation\<close>

lemma firstCanonical_first:
  "i < length T \<Longrightarrow> tok \<in> normalizeHeader H ` set (snd (T ! i))
   \<Longrightarrow> (\<forall>j<i. tok \<notin> normalizeHeader H ` set (snd (T ! j)))
   \<Longrightarrow> firstCanonical H tok T = Some (fst (T ! i))"
proof (induction T arbitrary: i)
  case Nil
  then show ?case by simp
next
  case (Cons e T)
  obtain canonical aliases where e: "e = (canonical, aliases)" by (cases e)
  show ?case
  proof (cases i)
    case 0
    with Cons.prems(2) e show ?thesis by (auto simp: list_ex_iff)
  next
    case (Suc k)
    from Cons.prems(3) Suc have "tok \<notin> normalizeHeader H ` set (snd ((e # T) ! 0))" by blast
    then have n: "\<not> list_ex (\<lambda>alias. normalizeHeader H alias = tok) aliases"
      using e by (auto simp: list_ex_iff)
    have "\<forall>j<k. tok \<notin> normalizeHeader H ` set (snd (T ! j))"
    proof (intro allI impI)
      fix j assume "j < k"
      then have "Suc j < i" using Suc by simp
      with Cons.prems(3) have "tok \<notin> normalizeHeader H ` set (snd ((e # T) ! Suc j))" by blast
      then show "tok \<notin> normalizeHeader H ` set (snd (T ! j))" by simp
    qed
    with Cons.IH [of k] Cons.prems(1,2) Suc
    have "firstCanonical H tok T = Some (fst (T ! k))" by simp
    with n e Suc show ?thesis by simp
  qed
qed

lemma firstCanonical_none:
  "(\<forall>j<length T. tok \<notin> normalizeHeader H ` set (snd (T ! j))) \<Longrightarrow> firstCanonical H tok T = None"
proof (induction T)
  case Nil
  show ?case by simp
next
  case (Cons e T)
  obtain canonical aliases where e: "e = (canonical, aliases)" by (cases e)
  from Cons.prems have "tok \<notin> normalizeHeader H ` set (snd ((e # T) ! 0))" by auto
  then have n: "\<not> list_ex (\<lambda>alias. normalizeHeader H alias = tok) aliases"
    using e by (auto simp: list_ex_iff)
  have "\<forall>j<length T. tok \<notin> normalizeHeader H ` set (snd (T ! j))"
  proof (intro allI impI)
    fix j assume "j < length T"
    then have "Suc j < length (e # T)" by simp
    with Cons.prems have "tok \<notin> normalizeHeader H ` set (snd ((e # T) ! Suc j))" by blast
    then show "tok \<notin> normalizeHeader H ` set (snd (T ! j))" by simp
  qed
  with Cons.IH n e show ?case by simp
qed

lemma underscore_not_space: "\<not> isWhiteSpace 95"
  by (simp add: isWhiteSpace_def)

lemma replaceWhitespaceRuns_no_space: "c \<in> set (replaceWhitespaceRuns s) \<Longrightarrow> \<not> isWhiteSpace c"
  by (induction s rule: replaceWhitespaceRuns.induct)
     (auto simp: underscore_not_space split: if_splits)

lemma normalizeHeader_token: "c \<in> set (normalizeHeader H header) \<Longrightarrow> isLowerAlnum c"
  by (simp add: normalizeHeader_def)

lemma shipped_aliases_are_tokens:
  "\<forall>a \<in> set (concat (map snd HEADER_ALIASES)). filter isLowerAlnum a = a"
  by (simp add: HEADER_ALIASES_def js_def isLowerAlnum_def isDigit_def)

lemma aliasSetContains_plain:
  assumes fx: "\<forall>a \<in> set (concat (map snd HEADER_ALIASES)). toLowerCase H a = a"
    and j: "j < length HEADER_ALIASES"
  shows "aliasSetContains H token j = (token \<in> set (snd (HEADER_ALIASES ! j)))"
proof -
  have sub: "set (snd (HEADER_ALIASES ! j)) \<subseteq> set (concat (map snd HEADER_ALIASES))"
    using j by (auto intro!: bexI [of _ "HEADER_ALIASES ! j"])
  have "normalizeHeader H a = a" if "a \<in> set (snd (HEADER_ALIASES ! j))" for a
    using that sub fx shipped_aliases_are_tokens by (auto simp: normalizeHeader_def)
  then have "normalizeHeader H ` set (snd (HEADER_ALIASES ! j)) = set (snd (HEADER_ALIASES ! j))"
    by (simp add: image_def)
  then show ?thesis by (simp add: aliasSetContains_def)
qed

text \<open>
  C6. \<open>mapHeader\<close> is a function of the header alone. The token is the lower-cased header
  without the characters outside \<open>[a-z0-9]\<close>. The result is the first canonical key, in
  the order of the table, whose alias set (normalised like the header) contains the
  token; when there is none, it is the header trimmed, then lower-cased, then with every
  run of white space replaced by one underscore, and no white space is left in it. For
  an engine whose lower-casing leaves the aliases of the table as they are, the
  normalised alias sets are the alias sets as written.
\<close>

theorem mapHeader_normalisation:
  "normalizeHeader H header = filter isLowerAlnum (toLowerCase H header) \<and>
   (i < length HEADER_ALIASES \<and> aliasSetContains H (normalizeHeader H header) i \<and>
      (\<forall>j<i. \<not> aliasSetContains H (normalizeHeader H header) j)
      \<longrightarrow> mapHeader H header = fst (HEADER_ALIASES ! i)) \<and>
   ((\<forall>j<length HEADER_ALIASES. \<not> aliasSetContains H (normalizeHeader H header) j)
      \<longrightarrow> mapHeader H header = replaceWhitespaceRuns (toLowerCase H (trim header)) \<and>
          (\<forall>c \<in> set (mapHeader H header). \<not> isWhiteSpace c)) \<and>
   ((\<forall>a \<in> set (concat (map snd HEADER_ALIASES)). toLowerCase H a = a) \<and>
      k < length HEADER_ALIASES
      \<longrightarrow> aliasSetContains H token k = (token \<in> set (snd (HEADER_ALIASES ! k))))"
proof (intro conjI impI)
  show "normalizeHeader H header = filter isLowerAlnum (toLowerCase H header)"
    by (simp add: normalizeHeader_def)
next
  assume a: "i < length HEADER_ALIASES \<and> aliasSetContains H (normalizeHeader H header) i \<and>
      (\<forall>j<i. \<not> aliasSetContains H (normalizeHeader H header) j)"
  then have "firstCanonical H (normalizeHeader H header) HEADER_ALIASES
             = Some (fst (HEADER_ALIASES ! i))"
    unfolding aliasSetContains_def by (intro firstCanonical_first) blast+
  then show "mapHeader H header = fst (HEADER_ALIASES ! i)"
    by (simp add: mapHeader_def Let_def)
next
  assume "\<forall>j<length HEADER_ALIASES. \<not> aliasSetContains H (normalizeHeader H header) j"
  then have "firstCanonical H (normalizeHeader H header) HEADER_ALIASES = None"
    unfolding aliasSetContains_def by (intro firstCanonical_none) blast
  then show m: "mapHeader H header = replaceWhitespaceRuns (toLowerCase H (trim header))"
    by (simp add: mapHeader_def Let_def)
  show "\<forall>c \<in> set (mapHeader H header). \<not> isWhiteSpace c"
    unfolding m using replaceWhitespaceRuns_no_space by blast
next
  assume "(\<forall>a \<in> set (concat (map snd HEADER_ALIASES)). toLowerCase H a = a) \<and>
      k < length HEADER_ALIASES"
  then show "aliasSetContains H token k = (token \<in> set (snd (HEADER_ALIASES ! k)))"
    using aliasSetContains_plain by blast
qed

lemma HEADER_ALIASES_length: "length HEADER_ALIASES = 8"
  by (simp add: HEADER_ALIASES_def)

lemma sampleHost_fixes_aliases:
  "\<forall>a \<in> set (concat (map snd HEADER_ALIASES)). toLowerCase sampleHost a = a"
  by (simp add: HEADER_ALIASES_def sampleHost_def asciiLower_def js_def)

lemma sample_tokens:
  "normalizeHeader sampleHost (js ''Test Name'') = js ''testname'' \<and>
   normalizeHeader sampleHost (js '' Collection  Site '') = js ''collectionsite''"
  by (simp add: normalizeHeader_def sampleHost_def asciiLower_def isLowerAlnum_def isDigit_def
      js_def)

lemma testname_alias:
  "(1::nat) < length HEADER_ALIASES \<and> js ''testname'' \<in> set (snd (HEADER_ALIASES ! 1)) \<and>
   js ''testname'' \<notin> set (snd (HEADER_ALIASES ! 0)) \<and> fst (HEADER_ALIASES ! 1) = js ''marker''"
  by (simp add: HEADER_ALIASES_def js_def)

lemma collectionsite_no_alias:
  "list_all (\<lambda>e. js ''collectionsite'' \<notin> set (snd e)) HEADER_ALIASES"
  by (simp add: HEADER_ALIASES_def js_def)

lemma collection_site_fallback:
  "replaceWhitespaceRuns (toLowerCase sampleHost (trim (js '' Collection  Site '')))
   = js ''collection_site''"
  by (simp add: trim_def sampleHost_def asciiLower_def isWhiteSpace_def js_def)

theorem mapHeader_normalisation_witness:
  "(1::nat) < length HEADER_ALIASES \<and>
   aliasSetContains sampleHost (normalizeHeader sampleHost (js ''Test Name'')) 1 \<and>
   \<not> aliasSetContains sampleHost (normalizeHeader sampleHost (js ''Test Name'')) 0 \<and>
   mapHeader sampleHost (js ''Test Name'') = js ''marker'' \<and>
   list_all (\<lambda>j. \<not> aliasSetContains sampleHost
                       (normalizeHeader sampleHost (js '' Collection  Site '')) j)
     [0 ..< length HEADER_ALIASES] \<and>
   mapHeader sampleHost (js '' Collection  Site '') = js ''collection_site'' \<and>
   list_all (\<lambda>a. toLowerCase sampleHost a = a) (concat (map snd HEADER_ALIASES))"
proof -
  note t = mapHeader_normalisation [of sampleHost "js ''Test Name''" 1 1 "js ''testname''"]
  note u = mapHeader_normalisation [of sampleHost "js '' Collection  Site ''" 0 0 "js ''x''"]
  have plain: "aliasSetContains sampleHost token k = (token \<in> set (snd (HEADER_ALIASES ! k)))"
    if "k < length HEADER_ALIASES" for token k
    using mapHeader_normalisation [of sampleHost "[]" 0 k token] sampleHost_fixes_aliases that
    by blast
  have 1: "aliasSetContains sampleHost (normalizeHeader sampleHost (js ''Test Name'')) 1"
    using plain [of 1] testname_alias sample_tokens by (simp add: HEADER_ALIASES_length)
  have 2: "\<forall>j<1. \<not> aliasSetContains sampleHost (normalizeHeader sampleHost (js ''Test Name'')) j"
    using plain [of 0] testname_alias sample_tokens by (simp add: HEADER_ALIASES_length)
  from t 1 2 testname_alias
  have 3: "mapHeader sampleHost (js ''Test Name'') = js ''marker''" by metis
  have 4: "\<forall>j<length HEADER_ALIASES.
      \<not> aliasSetContains sampleHost (normalizeHeader sampleHost (js '' Collection  Site '')) j"
    using plain collectionsite_no_alias sample_tokens by (simp add: list_all_length)
  from u 4 have 5: "mapHeader sampleHost (js '' Collection  Site '') = js ''collection_site''"
    unfolding collection_site_fallback by blast
  have n2: "\<not> aliasSetContains sampleHost (normalizeHeader sampleHost (js ''Test Name'')) 0"
    using 2 by simp
  have n4: "list_all (\<lambda>j. \<not> aliasSetContains sampleHost
                       (normalizeHeader sampleHost (js '' Collection  Site '')) j)
              [0 ..< length HEADER_ALIASES]"
    using 4 by (simp add: list_all_iff)
  have 6: "list_all (\<lambda>a. toLowerCase sampleHost a = a) (concat (map snd HEADER_ALIASES))"
    using sampleHost_fixes_aliases unfolding list_all_iff .
  show ?thesis using testname_alias 1 n2 3 n4 5 6 by blast
qed

subsection \<open>The list of years\<close>

lemma set_newSet: "set (newSet xs) = set xs"
  by (induction xs) auto

lemma distinct_newSet: "distinct (newSet xs)"
  by (induction xs) (simp_all add: set_newSet)

lemma digit_not_space: "isDigit c \<Longrightarrow> \<not> isWhiteSpace c"
  by (auto simp: isDigit_def isWhiteSpace_def word_le_nat_alt)

lemma radixDigit_digit: "isDigit c \<Longrightarrow> radixDigit 10 c = Some (unat c - 48)"
proof -
  assume d: "isDigit c"
  then have "unat c \<le> 57" by (simp add: isDigit_def word_le_nat_alt)
  then have "unat c - 48 < 10" by simp
  with d show ?thesis by (simp add: radixDigit_def)
qed

lemma takeWhile_digits:
  "list_all isDigit s \<Longrightarrow> takeWhile (\<lambda>c. radixDigit 10 c \<noteq> None) s = s"
  by (induction s) (simp_all add: radixDigit_digit)

lemma takeWhile_digits':
  "list_all isDigit s \<Longrightarrow> takeWhile (\<lambda>c. \<exists>y. radixDigit 10 c = Some y) s = s"
  using takeWhile_digits [of s] by simp

lemma foldl_digits:
  "list_all isDigit s \<Longrightarrow>
   foldl (\<lambda>a c. 10 * a + the (radixDigit 10 c)) a s = foldl (\<lambda>a c. 10 * a + (unat c - 48)) a s"
  by (induction s arbitrary: a) (simp_all add: radixDigit_digit)

lemma not_hex_digits:
  assumes "list_all isDigit s"
  shows "\<not> (2 \<le> length s \<and> hd s = 48 \<and> (s ! 1 = 120 \<or> s ! 1 = 88))"
proof
  assume h: "2 \<le> length s \<and> hd s = 48 \<and> (s ! 1 = 120 \<or> s ! 1 = 88)"
  then have "s ! 1 \<in> set s" by (intro nth_mem) simp
  with assms have "isDigit (s ! 1)" by (simp add: list_all_iff)
  with h show False by (auto simp: isDigit_def)
qed

lemma parseInt_digits:
  assumes "s \<noteq> []" "list_all isDigit s"
  shows "parseInt s = Some (int (digitsValue s))"
proof -
  from assms obtain c cs where s: "s = c # cs" by (cases s) auto
  with assms(2) have c: "isDigit c" by simp
  then have w: "\<not> isWhiteSpace c" by (rule digit_not_space)
  from c have ns: "c \<noteq> 45" "c \<noteq> 43" by (auto simp: isDigit_def)
  have t: "dropWhile isWhiteSpace s = s" using s w by simp
  have hd: "hd s = c" using s by simp
  show ?thesis
    unfolding parseInt_def t Let_def
    using not_hex_digits [OF assms(2)] assms ns hd
    by (auto simp: takeWhile_digits' foldl_digits digitsValue_def)
qed

lemma parseInt_minus_digits:
  assumes "s \<noteq> []" "list_all isDigit s"
  shows "parseInt (45 # s) = Some (- int (digitsValue s))"
proof -
  have w: "\<not> isWhiteSpace 45" by (simp add: isWhiteSpace_def)
  have t: "dropWhile isWhiteSpace (45 # s) = 45 # s" using w by simp
  show ?thesis
    unfolding parseInt_def t Let_def
    using not_hex_digits [OF assms(2)] assms
    by (auto simp: takeWhile_digits' foldl_digits digitsValue_def)
qed

lemma digit_word: "d < 10 \<Longrightarrow> isDigit (48 + of_nat d) \<and> unat (48 + of_nat d :: 16 word) - 48 = d"
proof -
  assume d: "d < 10"
  have "unat (48 + of_nat d :: 16 word) = 48 + d"
    using d by (simp add: unat_word_ariths unat_of_nat)
  then show ?thesis using d by (simp add: isDigit_def word_le_nat_alt)
qed

lemma decimal_digits: "list_all isDigit (decimal n)"
proof (induction n rule: decimal.induct)
  case (1 n)
  show ?case
  proof (cases "n < 10")
    case True
    then show ?thesis by (subst decimal.simps) (simp add: digit_word)
  next
    case False
    with 1 have "list_all isDigit (decimal (n div 10))" by simp
    moreover have "isDigit (48 + of_nat (n mod 10))" by (simp add: digit_word)
    ultimately show ?thesis using False by (subst decimal.simps) simp
  qed
qed

lemma digitsValue_snoc: "digitsValue (s @ [c]) = 10 * digitsValue s + (unat c - 48)"
  by (simp add: digitsValue_def)

lemma digitsValue_decimal: "digitsValue (decimal n) = n"
proof (induction n rule: decimal.induct)
  case (1 n)
  show ?case
  proof (cases "n < 10")
    case True
    then show ?thesis by (subst decimal.simps) (simp add: digit_word digitsValue_def)
  next
    case False
    with 1 have "digitsValue (decimal (n div 10)) = n div 10" by simp
    then show ?thesis
      using False by (subst decimal.simps) (simp add: digitsValue_snoc digit_word)
  qed
qed

lemma parseInt_intToString: "parseInt (intToString i) = Some i"
proof (cases "i < 0")
  case True
  then show ?thesis
    using parseInt_minus_digits [OF decimal_nonempty decimal_digits, of "nat (- i)"]
    by (simp add: intToString_def digitsValue_decimal)
next
  case False
  then show ?thesis
    using parseInt_digits [OF decimal_nonempty decimal_digits, of "nat i"]
    by (simp add: intToString_def digitsValue_decimal)
qed

lemma matchFourDigits_digits:
  "matchFourDigits s = Some m \<Longrightarrow> m \<noteq> [] \<and> list_all isDigit m"
  by (induction s) (auto split: if_splits)

lemma extractYear_parses:
  assumes "extractYear H d \<noteq> js ''Unknown''"
  shows "parseInt (extractYear H d) \<noteq> None"
proof (cases d)
  case None
  with assms show ?thesis by (simp add: extractYear_def)
next
  case (Some s)
  with assms have ne: "s \<noteq> []" by (auto simp: extractYear_def)
  show ?thesis
  proof (cases "newDate H s")
    case (Some isoDate)
    with \<open>d = Some s\<close> ne show ?thesis by (simp add: extractYear_def parseInt_intToString)
  next
    case None
    show ?thesis
    proof (cases "matchFourDigits s")
      case (Some m)
      with matchFourDigits_digits [OF Some] None \<open>d = Some s\<close> ne show ?thesis
        by (simp add: extractYear_def parseInt_digits)
    next
      case n: None
      with None \<open>d = Some s\<close> ne assms show ?thesis by (simp add: extractYear_def)
    qed
  qed
qed

lemma sortByParseIntDesc_years:
  assumes "\<forall>y \<in> set ys. parseInt y \<noteq> None"
  shows "sortByParseIntDesc ys = Some (sort_key (\<lambda>y. - the (parseInt y)) ys)"
  using assms by (simp add: sortByParseIntDesc_def list_all_iff)

lemma sorted_desc_sort_key:
  "sorted_wrt (\<lambda>a b. v b \<le> v a) (sort_key (\<lambda>y. - v y) ys)" for v :: "'a \<Rightarrow> int"
  using sorted_sort_key [of "\<lambda>y. - v y" ys] by (simp add: sorted_map)

text \<open>
  C9. The list of years is \<open>All\<close>, then the distinct years that the dates of the
  records classify to, \<open>Unknown\<close> apart, each of which reads as a number and which are in
  descending numeric order, and then \<open>Unknown\<close>, which is there exactly when the date of
  some record classifies to \<open>Unknown\<close>. The number that the year of a parsed date reads
  as is the calendar year.
\<close>

theorem yearList_order:
  "(\<exists>ys. yearList H st
           = Some (js ''All'' # ys @
                   (if \<exists>r \<in> set (data st). extractYear H (r f_date) = js ''Unknown''
                    then [js ''Unknown''] else [])) \<and>
         distinct ys \<and>
         set ys = (\<lambda>r. extractYear H (r f_date)) ` set (data st) - {js ''Unknown''} \<and>
         (\<forall>y \<in> set ys. \<exists>v. parseInt y = Some v) \<and>
         sorted_wrt (\<lambda>a b. the (parseInt b) \<le> the (parseInt a)) ys) \<and>
   (s \<noteq> [] \<and> newDate H s = Some d \<longrightarrow> parseInt (extractYear H (Some s)) = Some (getFullYear d))"
proof
  define xs where "xs = map (\<lambda>record. extractYear H (record f_date)) (data st)"
  define nu where "nu = filter (\<lambda>y. y \<noteq> js ''Unknown'') (newSet xs)"
  define ys where "ys = sort_key (\<lambda>y. - the (parseInt y)) nu"
  have set_nu: "set nu = (\<lambda>r. extractYear H (r f_date)) ` set (data st) - {js ''Unknown''}"
    by (auto simp: nu_def xs_def set_newSet)
  have parses: "\<forall>y \<in> set nu. parseInt y \<noteq> None"
    unfolding set_nu using extractYear_parses by blast
  have unknown: "(js ''Unknown'' \<in> set (newSet xs))
                 = (\<exists>r \<in> set (data st). extractYear H (r f_date) = js ''Unknown'')"
    unfolding xs_def set_newSet set_map image_iff by metis
  have "yearList H st
        = Some (js ''All'' # ys @
                (if \<exists>r \<in> set (data st). extractYear H (r f_date) = js ''Unknown''
                 then [js ''Unknown''] else []))"
    unfolding yearList_def Let_def xs_def [symmetric] nu_def [symmetric]
      sortByParseIntDesc_years [OF parses] unknown ys_def
    by simp
  moreover have "distinct ys"
    by (simp add: ys_def nu_def distinct_newSet)
  moreover have "set ys = (\<lambda>r. extractYear H (r f_date)) ` set (data st) - {js ''Unknown''}"
    by (simp add: ys_def set_nu)
  moreover have "\<forall>y \<in> set ys. \<exists>v. parseInt y = Some v"
    using parses by (simp add: ys_def)
  moreover have "sorted_wrt (\<lambda>a b. the (parseInt b) \<le> the (parseInt a)) ys"
    unfolding ys_def by (rule sorted_desc_sort_key)
  ultimately show "\<exists>ys. yearList H st
           = Some (js ''All'' # ys @
                   (if \<exists>r \<in> set (data st). extractYear H (r f_date) = js ''Unknown''
                    then [js ''Unknown''] else [])) \<and>
         distinct ys \<and>
         set ys = (\<lambda>r. extractYear H (r f_date)) ` set (data st) - {js ''Unknown''} \<and>
         (\<forall>y \<in> set ys. \<exists>v. parseInt y = Some v) \<and>
         sorted_wrt (\<lambda>a b. the (parseInt b) \<le> the (parseInt a)) ys"
    by blast
next
  show "s \<noteq> [] \<and> newDate H s = Some d \<longrightarrow> parseInt (extractYear H (Some s)) = Some (getFullYear d)"
    by (simp add: extractYear_def parseInt_intToString)
qed

lemma sample_years:
  "extractYear sampleHost (glucoseRow f_date) = js ''2024'' \<and>
   extractYear sampleHost (undatedRow f_date) = js ''Unknown'' \<and>
   extractYear sampleHost (ferritinRow f_date) = js ''2025'' \<and>
   extractYear sampleHost (wbcRow f_date) = js ''2024''"
  by (simp add: extractYear_def glucoseRow_def undatedRow_def ferritinRow_def wbcRow_def
      sampleHost_def isoDate_def js_def isDigit_def digitsValue_def intToString_def decimal.simps)

lemma sample_parseInt: "parseInt (js ''2024'') = Some 2024 \<and> parseInt (js ''2025'') = Some 2025"
proof -
  have "list_all isDigit (js ''2024'')" "list_all isDigit (js ''2025'')"
    by (simp_all add: js_def isDigit_def)
  then show ?thesis
    using parseInt_digits [of "js ''2024''"] parseInt_digits [of "js ''2025''"]
    by (simp add: js_def digitsValue_def)
qed

lemma yearsState_yearList:
  "yearList sampleHost yearsState = Some [js ''All'', js ''2025'', js ''2024'', js ''Unknown'']"
proof -
  have ne: "js ''2024'' \<noteq> js ''Unknown''" "js ''2025'' \<noteq> js ''Unknown''"
    "js ''2024'' \<noteq> js ''2025''" "js ''Unknown'' \<noteq> js ''2024''" "js ''2025'' \<noteq> js ''2024''"
    "js ''Unknown'' \<noteq> js ''2025''"
    by (simp_all add: js_def)
  show ?thesis
    by (simp add: yearList_def yearsState_def Let_def sample_years ne sortByParseIntDesc_def
        sample_parseInt)
qed

theorem yearList_order_witness:
  "(\<exists>r \<in> set (data yearsState). extractYear sampleHost (r f_date) = js ''Unknown'') \<and>
   yearList sampleHost yearsState = Some [js ''All'', js ''2025'', js ''2024'', js ''Unknown''] \<and>
   list_all (\<lambda>y. \<exists>v. parseInt y = Some v) [js ''2025'', js ''2024''] \<and>
   sorted_wrt (\<lambda>a b. the (parseInt b) \<le> the (parseInt a)) [js ''2025'', js ''2024''] \<and>
   js ''2024-02-20'' \<noteq> [] \<and>
   newDate sampleHost (js ''2024-02-20'') = Some \<lparr>getFullYear = 2024, getMonth = 1\<rparr> \<and>
   parseInt (extractYear sampleHost (Some (js ''2024-02-20''))) = Some 2024"
proof -
  let ?d = "\<lparr>getFullYear = 2024, getMonth = 1\<rparr>"
  have u: "\<exists>r \<in> set (data yearsState). extractYear sampleHost (r f_date) = js ''Unknown''"
    using sample_years by (simp add: yearsState_def)
  have n: "js ''2024-02-20'' \<noteq> []" by (simp add: js_def)
  note t = yearList_order [of sampleHost yearsState "js ''2024-02-20''" ?d]
  from t obtain ys where
    ys: "yearList sampleHost yearsState
         = Some (js ''All'' # ys @
                 (if \<exists>r \<in> set (data yearsState). extractYear sampleHost (r f_date) = js ''Unknown''
                  then [js ''Unknown''] else []))"
    and p: "\<forall>y \<in> set ys. \<exists>v. parseInt y = Some v"
    and s: "sorted_wrt (\<lambda>a b. the (parseInt b) \<le> the (parseInt a)) ys"
    by blast
  from ys u have "ys = [js ''2025'', js ''2024'']"
    unfolding yearsState_yearList by simp
  with p s have 1: "list_all (\<lambda>y. \<exists>v. parseInt y = Some v) [js ''2025'', js ''2024'']"
    and 2: "sorted_wrt (\<lambda>a b. the (parseInt b) \<le> the (parseInt a)) [js ''2025'', js ''2024'']"
    unfolding list_all_iff by blast+
  from t n sample_newDate
  have 3: "parseInt (extractYear sampleHost (Some (js ''2024-02-20''))) = Some (getFullYear ?d)"
    by blast
  show ?thesis using u yearsState_yearList 1 2 n sample_newDate 3 by simp
qed

subsection \<open>The top markers\<close>

lemma proto_inherited: "js ''__proto__'' \<in> set objectPrototypeKeys"
  by (simp add: objectPrototypeKeys_def)

lemma map_of_table: "map_of (map (\<lambda>k. (k, f k)) ks) m = (if m \<in> set ks then Some (f m) else None)"
  by (induction ks) auto

lemma setProperty_table:
  "distinct ks \<Longrightarrow>
   setProperty m v (map (\<lambda>k. (k, f k)) ks)
   = (if m \<in> set ks then map (\<lambda>k. (k, if k = m then v else f k)) ks
      else map (\<lambda>k. (k, f k)) ks @ [(m, v)])"
  by (induction ks) auto

lemma increment_table:
  assumes "distinct ks" "m \<notin> set objectPrototypeKeys"
  shows "increment H m (map (\<lambda>k. (k, Count (c k))) ks)
         = (if m \<in> set ks then map (\<lambda>k. (k, Count (if k = m then c k + 1 else c k))) ks
            else map (\<lambda>k. (k, Count (c k))) ks @ [(m, Count 1)])"
proof -
  from assms(2) proto_inherited have p: "m \<noteq> js ''__proto__''" by blast
  show ?thesis
  proof (cases "m \<in> set ks")
    case True
    then have "incremented H m (map_of (map (\<lambda>k. (k, Count (c k))) ks) m) = Count (c m + 1)"
      by (simp add: map_of_table incremented_def)
    with True p show ?thesis
      using setProperty_table [OF assms(1), of m "Count (c m + 1)" "\<lambda>k. Count (c k)"]
      by (simp add: increment_def Let_def)
  next
    case False
    then have "incremented H m (map_of (map (\<lambda>k. (k, Count (c k))) ks) m) = Count 1"
      using assms(2) p by (simp add: map_of_table incremented_def)
    with False p show ?thesis
      using setProperty_table [OF assms(1), of m "Count 1" "\<lambda>k. Count (c k)"]
      by (simp add: increment_def Let_def)
  qed
qed

lemma newSet_snoc:
  "newSet (xs @ [x]) = (if x \<in> set xs then newSet xs else newSet xs @ [x])"
  by (induction xs) (auto simp: set_newSet)

lemma count_table:
  "\<forall>m \<in> set ms. m \<notin> set objectPrototypeKeys \<Longrightarrow>
   foldl (\<lambda>t m. increment H m t) [] ms = map (\<lambda>k. (k, Count (count_list ms k))) (newSet ms)"
proof (induction ms rule: rev_induct)
  case Nil
  show ?case by simp
next
  case (snoc m ms)
  then have IH: "foldl (\<lambda>t m. increment H m t) [] ms
                 = map (\<lambda>k. (k, Count (count_list ms k))) (newSet ms)"
    and m: "m \<notin> set objectPrototypeKeys"
    by simp_all
  note inc = increment_table [OF distinct_newSet m, of H "count_list ms" ms]
  show ?case
  proof (cases "m \<in> set ms")
    case True
    then show ?thesis
      using IH inc by (simp add: newSet_snoc set_newSet)
  next
    case False
    then have "count_list ms m = 0" by (simp add: count_list_0_iff)
    with False show ?thesis
      using IH inc by (auto simp: newSet_snoc set_newSet)
  qed
qed

lemma firstIndex_newSet:
  "sorted_wrt (\<lambda>a b. firstIndex ms a < firstIndex ms b) (newSet ms)"
proof (induction ms)
  case Nil
  show ?case by simp
next
  case (Cons x ms)
  have "sorted_wrt (\<lambda>a b. firstIndex (x # ms) a < firstIndex (x # ms) b)
          (filter (\<lambda>y. y \<noteq> x) (newSet ms))"
  proof (rule sorted_wrt_mono_rel [OF _ sorted_wrt_filter [OF Cons]])
    fix a b
    assume "a \<in> set (filter (\<lambda>y. y \<noteq> x) (newSet ms))" "b \<in> set (filter (\<lambda>y. y \<noteq> x) (newSet ms))"
      "firstIndex ms a < firstIndex ms b"
    then show "firstIndex (x # ms) a < firstIndex (x # ms) b" by auto
  qed
  then show ?case by auto
qed

lemma stable_insort_key:
  "sorted_wrt (\<lambda>a b. f a = f b \<longrightarrow> R a b) ys \<Longrightarrow> (\<forall>y \<in> set ys. f x = f y \<longrightarrow> R x y)
   \<Longrightarrow> sorted_wrt (\<lambda>a b. f a = f b \<longrightarrow> R a b) (insort_key f x ys)"
  by (induction ys) (auto simp: set_insort_key)

lemma stable_sort_key:
  "sorted_wrt R xs \<Longrightarrow> sorted_wrt (\<lambda>a b. f a = f b \<longrightarrow> R a b) (sort_key f xs)"
  by (induction xs) (auto intro!: stable_insort_key)

lemma sorted_desc_count:
  "sorted_wrt (\<lambda>e e'. g e' \<le> g e) (sort_key (\<lambda>e. - int (g e)) es)" for g :: "'a \<Rightarrow> nat"
  using sorted_sort_key [of "\<lambda>e. - int (g e)" es] by (simp add: sorted_map)

lemma sorted_wrt_take_drop:
  "sorted_wrt P xs \<Longrightarrow> x \<in> set (take n xs) \<Longrightarrow> y \<in> set (drop n xs) \<Longrightarrow> P x y"
  using sorted_wrt_append [of P "take n xs" "drop n xs"] by simp

lemma objectEntries_set: "set (objectEntries props) = set props"
  by (auto simp: objectEntries_def)

lemma objectEntries_length: "length (objectEntries props) = length props"
  by (simp add: objectEntries_def sum_length_filter_compl)

lemma objectEntries_distinct: "distinct props \<Longrightarrow> distinct (objectEntries props)"
  by (auto simp: objectEntries_def)

lemma objectEntries_order:
  assumes "sorted_wrt (\<lambda>e e'. firstIndex ms (fst e) < firstIndex ms (fst e')) props"
  shows "sorted_wrt (\<lambda>e e'. enumeratedBefore ms (fst e) (fst e')) (objectEntries props)"
proof -
  let ?R = "\<lambda>e e'. enumeratedBefore ms (fst e) (fst e')"
  let ?A = "sort_key (\<lambda>e. digitsValue (fst e)) (filter (\<lambda>e. isArrayIndex (fst e)) props)"
  let ?B = "filter (\<lambda>e. \<not> isArrayIndex (fst e)) props"
  have "sorted_wrt (\<lambda>e e'. digitsValue (fst e) \<le> digitsValue (fst e')) ?A"
    using sorted_sort_key [of "\<lambda>e. digitsValue (fst e)" "filter (\<lambda>e. isArrayIndex (fst e)) props"]
    by (simp add: sorted_map)
  then have a: "sorted_wrt ?R ?A"
    by (rule sorted_wrt_mono_rel [rotated]) (auto simp: enumeratedBefore_def)
  have "sorted_wrt (\<lambda>e e'. firstIndex ms (fst e) < firstIndex ms (fst e')) ?B"
    using assms by (rule sorted_wrt_filter)
  then have b: "sorted_wrt ?R ?B"
    by (rule sorted_wrt_mono_rel [rotated]) (auto simp: enumeratedBefore_def)
  have c: "\<forall>x \<in> set ?A. \<forall>y \<in> set ?B. ?R x y"
    by (auto simp: enumeratedBefore_def)
  show ?thesis
    unfolding objectEntries_def sorted_wrt_append using a b c by blast
qed

lemma zip_fst_countOf:
  "zip (map fst T) (map countOf (map snd T)) = map (\<lambda>e. (fst e, countOf (snd e))) T"
  by (induction T) simp_all

lemma ranking_entries:
  fixes ms :: "jsstring list" and n :: nat
  defines "S \<equiv> sort_key (\<lambda>e. - int (countOf (snd e)))
                  (objectEntries (map (\<lambda>k. (k, Count (count_list ms k))) (newSet ms)))"
  defines "es \<equiv> map (\<lambda>e. (fst e, countOf (snd e))) (take n S)"
  shows "length (take n S) = min n (card (set ms))"
    and "list_all (\<lambda>e. isCount (snd e)) (take n S)"
    and "countsOccurrences ms es" and "sortedByCountDesc es"
    and "tiesOrdered (enumeratedBefore ms) es"
    and "leftOutRankLower (enumeratedBefore ms) ms es"
proof -
  let ?tbl = "map (\<lambda>k. (k, Count (count_list ms k))) (newSet ms)"
  let ?E = "objectEntries ?tbl"
  let ?c = "\<lambda>e :: jsstring \<times> cell. countOf (snd e)"
  have keys: "map fst ?tbl = newSet ms" by (simp add: comp_def)
  have dk: "distinct (map fst ?tbl)" unfolding keys by (rule distinct_newSet)
  then have dt: "distinct ?tbl" and inj: "inj_on fst (set ?tbl)"
    by (simp_all only: distinct_map)
  have setS: "set S = set ?tbl" by (simp add: S_def objectEntries_set)
  have entry: "fst e \<in> set ms \<and> snd e = Count (count_list ms (fst e))" if "e \<in> set S" for e
    using that unfolding setS by (auto simp: set_newSet)
  have cnt: "?c e = count_list ms (fst e)" if "e \<in> set S" for e
    using entry [OF that] by (simp add: countOf_def)
  have keysS: "fst ` set S = set ms"
    unfolding setS by (force simp: set_newSet)
  have "length S = length (newSet ms)" by (simp add: S_def objectEntries_length)
  also have "\<dots> = card (set ms)"
    using distinct_card [OF distinct_newSet, of ms] by (simp add: set_newSet)
  finally have lenS: "length S = card (set ms)" .
  show "length (take n S) = min n (card (set ms))" by (simp add: lenS min.commute)
  show "list_all (\<lambda>e. isCount (snd e)) (take n S)"
    unfolding list_all_iff
  proof
    fix e assume "e \<in> set (take n S)"
    then have "e \<in> set S" using set_take_subset [of n S] by blast
    from entry [OF this] show "isCount (snd e)" by (simp add: isCount_def)
  qed
  have "distinct S" using objectEntries_distinct [OF dt] by (simp add: S_def)
  with inj setS have dS: "distinct (map fst S)" by (simp add: distinct_map)
  then have d: "distinct (map fst (take n S))"
    unfolding take_map [symmetric] by (rule distinct_take)
  have mf: "map fst es = map fst (take n S)" by (simp add: es_def comp_def)
  have sub: "set (take n S) \<subseteq> set S" by (rule set_take_subset)
  show "countsOccurrences ms es"
    unfolding countsOccurrences_def mf using d sub entry cnt
    by (auto simp: es_def list_all_iff)
  have sd: "sorted_wrt (\<lambda>e e'. ?c e' \<le> ?c e) S"
    unfolding S_def by (rule sorted_desc_count)
  then show "sortedByCountDesc es"
    unfolding sortedByCountDesc_def es_def by (simp add: sorted_wrt_map)
  have "sorted_wrt (\<lambda>e e'. firstIndex ms (fst e) < firstIndex ms (fst e')) ?tbl"
    using firstIndex_newSet [of ms] by (simp add: sorted_wrt_map)
  then have "sorted_wrt (\<lambda>e e'. enumeratedBefore ms (fst e) (fst e')) ?E"
    by (rule objectEntries_order)
  then have "sorted_wrt (\<lambda>a b. - int (?c a) = - int (?c b)
                \<longrightarrow> enumeratedBefore ms (fst a) (fst b)) S"
    unfolding S_def by (rule stable_sort_key)
  then have st: "sorted_wrt (\<lambda>e e'. ?c e = ?c e' \<longrightarrow> enumeratedBefore ms (fst e) (fst e')) S"
    by simp
  then show "tiesOrdered (enumeratedBefore ms) es"
    unfolding tiesOrdered_def es_def by (simp add: sorted_wrt_map)
  show "leftOutRankLower (enumeratedBefore ms) ms es"
    unfolding leftOutRankLower_def
  proof (intro ballI)
    fix m e
    assume m: "m \<in> set ms - fst ` set es" and e: "e \<in> set es"
    from e obtain x where x: "x \<in> set (take n S)" "e = (fst x, ?c x)"
      by (auto simp: es_def)
    from m keysS have "m \<in> fst ` set S" by simp
    then obtain y where y: "y \<in> set S" "fst y = m" unfolding image_iff by metis
    have "y \<notin> set (take n S)"
    proof
      assume "y \<in> set (take n S)"
      then have "fst y \<in> fst ` set es" by (force simp: es_def)
      with m y show False by simp
    qed
    with y(1) have yd: "y \<in> set (drop n S)"
      using append_take_drop_id [of n S] set_append [of "take n S" "drop n S"] by auto
    have 1: "?c y \<le> ?c x" using sorted_wrt_take_drop [OF sd x(1) yd] .
    have 2: "?c x = ?c y \<longrightarrow> enumeratedBefore ms (fst x) (fst y)"
      using sorted_wrt_take_drop [OF st x(1) yd] .
    from 1 2 show "count_list ms m \<le> snd e \<and> (count_list ms m = snd e \<longrightarrow> enumeratedBefore ms (fst e) m)"
      using cnt [OF y(1)] y(2) x(2) by auto
  qed
qed

lemma aggregateTopMarkers_entries:
  assumes "\<not> list_ex (\<lambda>r. markerOf r \<in> set objectPrototypeKeys) records"
  shows "aggregateTopMarkers H records n
         = \<lparr>labels = map fst (take n (sort_key (\<lambda>e. - int (countOf (snd e)))
                    (objectEntries (map (\<lambda>k. (k, Count (count_list (map markerOf records) k)))
                                        (newSet (map markerOf records)))))),
            counts = map snd (take n (sort_key (\<lambda>e. - int (countOf (snd e)))
                    (objectEntries (map (\<lambda>k. (k, Count (count_list (map markerOf records) k)))
                                        (newSet (map markerOf records))))))\<rparr>"
proof -
  let ?ms = "map markerOf records"
  let ?tbl = "map (\<lambda>k. (k, Count (count_list ?ms k))) (newSet ?ms)"
  have plain: "\<forall>m \<in> set ?ms. m \<notin> set objectPrototypeKeys"
    using assms by (auto simp: list_ex_iff)
  have "foldl (\<lambda>markerCounts record. increment H (markerOf record) markerCounts) [] records
        = foldl (\<lambda>t m. increment H m t) [] ?ms"
    by (simp add: foldl_map)
  also have "\<dots> = ?tbl" using plain by (rule count_table)
  finally have t: "foldl (\<lambda>markerCounts record. increment H (markerOf record) markerCounts)
                     [] records = ?tbl" .
  have "list_all (\<lambda>e. isCount (snd e)) (objectEntries ?tbl)"
    unfolding list_all_iff objectEntries_set by (auto simp: isCount_def)
  then have s: "sortEntries H (objectEntries ?tbl)
                = sort_key (\<lambda>e. - int (countOf (snd e))) (objectEntries ?tbl)"
    by (simp add: sortEntries_def)
  show ?thesis
    unfolding aggregateTopMarkers_def Let_def t s ..
qed

lemma markerOf_missing:
  "r f_marker = None \<or> r f_marker = Some [] \<Longrightarrow> markerOf r = js ''Unknown''"
  by (auto simp: markerOf_def orElse_def)

lemma topMarkersSpec_entries:
  assumes "length T = min n (card (set (map markerOf records)))"
    "list_all (\<lambda>e. isCount (snd e)) T"
    "countsOccurrences (map markerOf records) (map (\<lambda>e. (fst e, countOf (snd e))) T)"
    "sortedByCountDesc (map (\<lambda>e. (fst e, countOf (snd e))) T)"
    "tiesOrdered (before (map markerOf records)) (map (\<lambda>e. (fst e, countOf (snd e))) T)"
    "leftOutRankLower (before (map markerOf records)) (map markerOf records)
       (map (\<lambda>e. (fst e, countOf (snd e))) T)"
  shows "topMarkersSpec before records n \<lparr>labels = map fst T, counts = map snd T\<rparr>"
  using assms
  by (simp add: topMarkersSpec_def Let_def zip_fst_countOf list_all_iff del: map_map)

lemma topMarkersSpec_enumerated:
  assumes "\<not> list_ex (\<lambda>r. markerOf r \<in> set objectPrototypeKeys) records"
  shows "topMarkersSpec enumeratedBefore records n (aggregateTopMarkers H records n)"
  unfolding aggregateTopMarkers_entries [OF assms]
  by (intro topMarkersSpec_entries ranking_entries)

lemma ties_without_indices:
  assumes "tiesOrdered (enumeratedBefore ms) es" "\<forall>e \<in> set es. \<not> isArrayIndex (fst e)"
  shows "tiesOrdered (firstEncounteredBefore ms) es"
  using assms unfolding tiesOrdered_def
  by (elim sorted_wrt_mono_rel [rotated])
     (auto simp: enumeratedBefore_def firstEncounteredBefore_def)

lemma leftOut_without_indices:
  assumes "leftOutRankLower (enumeratedBefore ms) ms es" "\<forall>e \<in> set es. \<not> isArrayIndex (fst e)"
  shows "leftOutRankLower (firstEncounteredBefore ms) ms es"
  using assms unfolding leftOutRankLower_def
  by (auto simp: enumeratedBefore_def firstEncounteredBefore_def split: if_splits)

lemma topMarkersSpec_first_encountered:
  assumes "\<not> list_ex (\<lambda>r. markerOf r \<in> set objectPrototypeKeys) records"
    and "\<not> list_ex (\<lambda>r. isArrayIndex (markerOf r)) records"
  shows "topMarkersSpec firstEncounteredBefore records n (aggregateTopMarkers H records n)"
proof -
  define ms where "ms = map markerOf records"
  define T where "T = take n (sort_key (\<lambda>e. - int (countOf (snd e)))
                (objectEntries (map (\<lambda>k. (k, Count (count_list ms k))) (newSet ms))))"
  define es where "es = map (\<lambda>e. (fst e, countOf (snd e))) T"
  have l: "length T = min n (card (set ms))" and a: "list_all (\<lambda>e. isCount (snd e)) T"
    and c: "countsOccurrences ms es" and s: "sortedByCountDesc es"
    and t: "tiesOrdered (enumeratedBefore ms) es"
    and o: "leftOutRankLower (enumeratedBefore ms) ms es"
    unfolding es_def T_def by (rule ranking_entries)+
  from c have "\<forall>e \<in> set es. fst e \<in> set ms"
    by (simp add: countsOccurrences_def list_all_iff)
  with assms(2) have ni: "\<forall>e \<in> set es. \<not> isArrayIndex (fst e)"
    unfolding ms_def list_ex_iff by auto
  have t': "tiesOrdered (firstEncounteredBefore ms) es"
    using t ni by (rule ties_without_indices)
  have o': "leftOutRankLower (firstEncounteredBefore ms) ms es"
    using o ni by (rule leftOut_without_indices)
  have "topMarkersSpec firstEncounteredBefore records n \<lparr>labels = map fst T, counts = map snd T\<rparr>"
    using l a c s t' o' unfolding es_def ms_def by (rule topMarkersSpec_entries)
  then show ?thesis
    unfolding aggregateTopMarkers_entries [OF assms(1)] T_def ms_def .
qed

text \<open>
  C7, as the code has it. A record without a marker, or with an empty one, counts
  under \<open>Unknown\<close>. When no marker is a property name that objects inherit, the chart
  has \<open>n\<close> entries, or one for every distinct marker when these are fewer; every entry
  counts the occurrences of its marker; the counts do not increase; every marker left
  out ranks after every entry; and entries with equal counts stand in the order in which
  the count object enumerates its keys: the markers that are array indices first, in
  ascending numeric order, then the other markers in first-encountered order. When
  moreover no marker is an array index, entries with equal counts stand in
  first-encountered order.
\<close>

theorem aggregateTopMarkers_ranking:
  "(r f_marker = None \<or> r f_marker = Some [] \<longrightarrow> markerOf r = js ''Unknown'') \<and>
   (\<not> list_ex (\<lambda>r. markerOf r \<in> set objectPrototypeKeys) records \<longrightarrow>
      topMarkersSpec enumeratedBefore records n (aggregateTopMarkers H records n) \<and>
      (\<not> list_ex (\<lambda>r. isArrayIndex (markerOf r)) records \<longrightarrow>
         topMarkersSpec firstEncounteredBefore records n (aggregateTopMarkers H records n)))"
proof (intro conjI impI)
  assume "r f_marker = None \<or> r f_marker = Some []"
  then show "markerOf r = js ''Unknown''" by (rule markerOf_missing)
next
  assume p: "\<not> list_ex (\<lambda>r. markerOf r \<in> set objectPrototypeKeys) records"
  then show "topMarkersSpec enumeratedBefore records n (aggregateTopMarkers H records n)"
    by (rule topMarkersSpec_enumerated)
  assume "\<not> list_ex (\<lambda>r. isArrayIndex (markerOf r)) records"
  with p show "topMarkersSpec firstEncounteredBefore records n (aggregateTopMarkers H records n)"
    by (rule topMarkersSpec_first_encountered)
qed

lemma code_rows_markers:
  "map markerOf [code4544Row, code718Row] = [js ''4544'', js ''718'']"
  by (simp add: markerOf_def orElse_def code4544Row_def code718Row_def js_def)

lemma code_rows_plain:
  "\<not> list_ex (\<lambda>r. markerOf r \<in> set objectPrototypeKeys) [code4544Row, code718Row]"
  using code_rows_markers by (simp add: objectPrototypeKeys_def js_def)

lemma code_rows_top:
  "aggregateTopMarkers H [code4544Row, code718Row] 10
   = \<lparr>labels = [js ''718'', js ''4544''], counts = [Count 1, Count 1]\<rparr>"
proof -
  have i: "isArrayIndex (js ''4544'')" "isArrayIndex (js ''718'')"
    by (simp_all add: isArrayIndex_def isDigit_def digitsValue_def js_def)
  have v: "digitsValue (js ''4544'') = 4544" "digitsValue (js ''718'') = 718"
    by (simp_all add: digitsValue_def js_def)
  have n: "js ''718'' \<noteq> js ''4544''" by (simp add: js_def)
  show ?thesis
    unfolding aggregateTopMarkers_entries [OF code_rows_plain] code_rows_markers
    using n by (simp add: objectEntries_def i v countOf_def)
qed

lemma proto_rows_markers:
  "map markerOf [glucoseRow, protoRow] = [js ''Glucose'', js ''__proto__'']"
  by (simp add: markerOf_def orElse_def glucoseRow_def protoRow_def js_def)

lemma proto_rows_top:
  "aggregateTopMarkers H [glucoseRow, protoRow] 10
   = \<lparr>labels = [js ''Glucose''], counts = [Count 1]\<rparr>"
proof -
  have g: "js ''Glucose'' \<notin> set objectPrototypeKeys" "js ''Glucose'' \<noteq> js ''__proto__''"
    "\<not> isArrayIndex (js ''Glucose'')"
    by (simp_all add: objectPrototypeKeys_def isArrayIndex_def isDigit_def js_def)
  have m: "markerOf glucoseRow = js ''Glucose''" "markerOf protoRow = js ''__proto__''"
    using proto_rows_markers by simp_all
  have t: "foldl (\<lambda>markerCounts record. increment H (markerOf record) markerCounts) []
             [glucoseRow, protoRow] = [(js ''Glucose'', Count 1)]"
    using g by (simp add: m increment_def incremented_def)
  show ?thesis
    unfolding aggregateTopMarkers_def Let_def t
    using g by (simp add: objectEntries_def sortEntries_def isCount_def)
qed

text \<open>
  C7 as the specification states it fails. Of two markers that occur once each, \<open>4544\<close>
  is encountered first and \<open>718\<close> is listed first; and a record whose marker is
  \<open>__proto__\<close> is not counted at all.
\<close>

theorem topMarkers_counterexample:
  "aggregateTopMarkers sampleHost [code4544Row, code718Row] 10
     = \<lparr>labels = [js ''718'', js ''4544''], counts = [Count 1, Count 1]\<rparr> \<and>
   firstIndex (map markerOf [code4544Row, code718Row]) (js ''4544'')
     < firstIndex (map markerOf [code4544Row, code718Row]) (js ''718'') \<and>
   \<not> topMarkersSpec firstEncounteredBefore [code4544Row, code718Row] 10
        (aggregateTopMarkers sampleHost [code4544Row, code718Row] 10) \<and>
   markerOf protoRow = js ''__proto__'' \<and>
   aggregateTopMarkers sampleHost [glucoseRow, protoRow] 10
     = \<lparr>labels = [js ''Glucose''], counts = [Count 1]\<rparr> \<and>
   \<not> topMarkersSpec firstEncounteredBefore [glucoseRow, protoRow] 10
        (aggregateTopMarkers sampleHost [glucoseRow, protoRow] 10)"
proof -
  have n: "js ''718'' \<noteq> js ''4544''" "js ''4544'' \<noteq> js ''718''"
    "js ''Glucose'' \<noteq> js ''__proto__''"
    by (simp_all add: js_def)
  have f: "firstIndex [js ''4544'', js ''718''] (js ''4544'') = 0"
    "firstIndex [js ''4544'', js ''718''] (js ''718'') = 1"
    using n by simp_all
  have 1: "\<not> topMarkersSpec firstEncounteredBefore [code4544Row, code718Row] 10
             \<lparr>labels = [js ''718'', js ''4544''], counts = [Count 1, Count 1]\<rparr>"
    unfolding topMarkersSpec_def code_rows_markers
    using n by (simp add: Let_def tiesOrdered_def firstEncounteredBefore_def f countOf_def)
  have 2: "\<not> topMarkersSpec firstEncounteredBefore [glucoseRow, protoRow] 10
             \<lparr>labels = [js ''Glucose''], counts = [Count 1]\<rparr>"
    unfolding topMarkersSpec_def proto_rows_markers
    using n by (simp add: Let_def)
  have m: "markerOf protoRow = js ''__proto__''" using proto_rows_markers by simp
  show ?thesis
    unfolding code_rows_top proto_rows_top code_rows_markers f using 1 2 m by simp
qed

lemma lab_rows_markers:
  "map markerOf [glucoseRow, undatedRow, ferritinRow, wbcRow]
   = [js ''Glucose'', js ''Glucose'', js ''Ferritin'', js ''WBC'']"
  by (simp add: markerOf_def orElse_def glucoseRow_def undatedRow_def ferritinRow_def wbcRow_def
      js_def)

lemma lab_rows_plain:
  "\<not> list_ex (\<lambda>r. markerOf r \<in> set objectPrototypeKeys) [glucoseRow, undatedRow, ferritinRow, wbcRow]
   \<and> \<not> list_ex (\<lambda>r. isArrayIndex (markerOf r)) [glucoseRow, undatedRow, ferritinRow, wbcRow]"
proof -
  have "list_all (\<lambda>m. m \<notin> set objectPrototypeKeys \<and> \<not> isArrayIndex m)
          (map markerOf [glucoseRow, undatedRow, ferritinRow, wbcRow])"
    unfolding lab_rows_markers
    by (simp add: objectPrototypeKeys_def isArrayIndex_def isDigit_def js_def)
  then show ?thesis by (simp add: list_all_iff list_ex_iff)
qed

lemma lab_rows_top:
  "aggregateTopMarkers H [glucoseRow, undatedRow, ferritinRow, wbcRow] 2
   = \<lparr>labels = [js ''Glucose'', js ''Ferritin''], counts = [Count 2, Count 1]\<rparr>"
proof -
  have i: "\<not> isArrayIndex (js ''Glucose'')" "\<not> isArrayIndex (js ''Ferritin'')"
    "\<not> isArrayIndex (js ''WBC'')"
    by (simp_all add: isArrayIndex_def isDigit_def js_def)
  have n: "js ''Glucose'' \<noteq> js ''Ferritin''" "js ''Glucose'' \<noteq> js ''WBC''"
    "js ''Ferritin'' \<noteq> js ''WBC''" "js ''Ferritin'' \<noteq> js ''Glucose''"
    "js ''WBC'' \<noteq> js ''Glucose''" "js ''WBC'' \<noteq> js ''Ferritin''"
    by (simp_all add: js_def)
  show ?thesis
    unfolding aggregateTopMarkers_entries [OF lab_rows_plain [THEN conjunct1]] lab_rows_markers
    using n by (simp add: objectEntries_def i countOf_def)
qed

theorem aggregateTopMarkers_ranking_witness:
  "[f_value \<mapsto> js ''5''] f_marker = None \<and> markerOf [f_value \<mapsto> js ''5''] = js ''Unknown'' \<and>
   \<not> list_ex (\<lambda>r. markerOf r \<in> set objectPrototypeKeys)
       [glucoseRow, undatedRow, ferritinRow, wbcRow] \<and>
   \<not> list_ex (\<lambda>r. isArrayIndex (markerOf r)) [glucoseRow, undatedRow, ferritinRow, wbcRow] \<and>
   aggregateTopMarkers sampleHost [glucoseRow, undatedRow, ferritinRow, wbcRow] 2
     = \<lparr>labels = [js ''Glucose'', js ''Ferritin''], counts = [Count 2, Count 1]\<rparr> \<and>
   topMarkersSpec enumeratedBefore [glucoseRow, undatedRow, ferritinRow, wbcRow] 2
     \<lparr>labels = [js ''Glucose'', js ''Ferritin''], counts = [Count 2, Count 1]\<rparr> \<and>
   topMarkersSpec firstEncounteredBefore [glucoseRow, undatedRow, ferritinRow, wbcRow] 2
     \<lparr>labels = [js ''Glucose'', js ''Ferritin''], counts = [Count 2, Count 1]\<rparr> \<and>
   \<not> list_ex (\<lambda>r. markerOf r \<in> set objectPrototypeKeys) [code4544Row, code718Row] \<and>
   topMarkersSpec enumeratedBefore [code4544Row, code718Row] 10
     \<lparr>labels = [js ''718'', js ''4544''], counts = [Count 1, Count 1]\<rparr>"
proof -
  let ?labs = "[glucoseRow, undatedRow, ferritinRow, wbcRow]"
  let ?codes = "[code4544Row, code718Row]"
  have m: "[f_value \<mapsto> js ''5''] f_marker = None" by (simp add: js_def)
  note a = aggregateTopMarkers_ranking [of "[f_value \<mapsto> js ''5'']" ?labs 2 sampleHost]
  note b = aggregateTopMarkers_ranking [of "[f_value \<mapsto> js ''5'']" ?codes 10 sampleHost]
  from a m have 1: "markerOf [f_value \<mapsto> js ''5''] = js ''Unknown''" by blast
  from a lab_rows_plain
  have 2: "topMarkersSpec enumeratedBefore ?labs 2 (aggregateTopMarkers sampleHost ?labs 2)"
    and 3: "topMarkersSpec firstEncounteredBefore ?labs 2 (aggregateTopMarkers sampleHost ?labs 2)"
    by blast+
  from b code_rows_plain
  have 4: "topMarkersSpec enumeratedBefore ?codes 10 (aggregateTopMarkers sampleHost ?codes 10)"
    by blast
  show ?thesis
    using m 1 lab_rows_plain lab_rows_top [of sampleHost] 2 3 code_rows_plain 4
    unfolding lab_rows_top code_rows_top by blast
qed

text \<open>
  A marker that names an inherited function gets a string for a cell: the text of the
  function followed by \<open>1\<close>.
\<close>

lemma toString_row_top:
  "aggregateTopMarkers sampleHost [toStringRow] 10
   = \<lparr>labels = [js ''toString''],
      counts = [Text (js ''function toString() { [native code] }1'')]\<rparr>"
proof -
  have m: "markerOf toStringRow = js ''toString''"
    by (simp add: markerOf_def orElse_def toStringRow_def js_def)
  have k: "js ''toString'' \<in> set objectPrototypeKeys" "js ''toString'' \<noteq> js ''__proto__''"
    "\<not> isArrayIndex (js ''toString'')"
    by (simp_all add: objectPrototypeKeys_def isArrayIndex_def isDigit_def js_def)
  have t: "foldl (\<lambda>markerCounts record. increment sampleHost (markerOf record) markerCounts) []
             [toStringRow] = [(js ''toString'', Text (js ''function toString() { [native code] }1''))]"
    using k by (simp add: m increment_def incremented_def sampleHost_def js_def)
  show ?thesis
    unfolding aggregateTopMarkers_def Let_def t
    using k by (simp add: objectEntries_def sortEntries_def isCount_def sampleHost_def)
qed

subsection \<open>The date classifier: the fallback and the year\<close>

lemma decimal_length_four: "1000 \<le> n \<Longrightarrow> n < 10000 \<Longrightarrow> length (decimal n) = 4"
proof -
  assume n: "1000 \<le> n" "n < 10000"
  have 3: "length (decimal m) = 3" if "100 \<le> m" "m < 1000" for m
  proof -
    from that have "10 \<le> m div 10" "m div 10 < 100" by simp_all
    then have "length (decimal (m div 10)) = 2" by (simp add: decimal_two twoDigits_def)
    with that show ?thesis by (subst decimal.simps) simp
  qed
  from n have "100 \<le> n div 10" "n div 10 < 1000" by simp_all
  then have "length (decimal (n div 10)) = 3" by (rule 3)
  with n show ?thesis by (subst decimal.simps) simp
qed

lemma intToString_four_digits:
  "1000 \<le> y \<Longrightarrow> y \<le> 9999 \<Longrightarrow> length (intToString y) = 4 \<and> list_all isDigit (intToString y)"
  using decimal_length_four [of "nat y"] decimal_digits [of "nat y"]
  by (simp add: intToString_def)

lemma long_run_example:
  "newDate sampleHost (js ''abc 12345 def'') = None \<and>
   firstExactRun (js ''abc 12345 def'') = None \<and>
   extractYear sampleHost (Some (js ''abc 12345 def'')) = js ''1234''"
  by (simp add: sampleHost_def isoDate_def firstExactRun_def exactRunAt_def fourDigitsAt_def
      extractYear_def isDigit_def js_def upt_conv_Cons)

lemma short_year_example:
  "newDate sampleHost (js ''0999-06-01'') = Some \<lparr>getFullYear = 999, getMonth = 5\<rparr> \<and>
   extractYear sampleHost (Some (js ''0999-06-01'')) = js ''999'' \<and>
   extractYearMonth sampleHost (Some (js ''0999-06-01'')) = js ''999-06''"
  by (simp add: sampleHost_def isoDate_def extractYear_def extractYearMonth_def isDigit_def
      digitsValue_def intToString_def decimal.simps padStart_def js_def)

text \<open>
  C5 as the specification states it fails. In \<open>abc 12345 def\<close>, which does not parse
  as a date, no run of exactly four consecutive digits exists, and \<open>extractYear\<close>
  answers \<open>1234\<close>, the first four digits of the run of five. And for the date
  \<open>0999-06-01\<close> the year-month is \<open>999-06\<close>, which has not the form \<open>YYYY-MM\<close>.
\<close>

theorem date_classifier_counterexample:
  "js ''abc 12345 def'' \<noteq> [] \<and> newDate sampleHost (js ''abc 12345 def'') = None \<and>
   firstExactRun (js ''abc 12345 def'') = None \<and>
   fallbackYearAsStated (js ''abc 12345 def'') = js ''Unknown'' \<and>
   extractYear sampleHost (Some (js ''abc 12345 def'')) = js ''1234'' \<and>
   extractYear sampleHost (Some (js ''abc 12345 def'')) \<noteq> fallbackYearAsStated (js ''abc 12345 def'') \<and>
   newDate sampleHost (js ''0999-06-01'') = Some \<lparr>getFullYear = 999, getMonth = 5\<rparr> \<and>
   extractYearMonth sampleHost (Some (js ''0999-06-01'')) = js ''999-06'' \<and>
   length (extractYearMonth sampleHost (Some (js ''0999-06-01''))) \<noteq> 7"
proof -
  have n: "js ''abc 12345 def'' \<noteq> []" "js ''1234'' \<noteq> js ''Unknown''" "length (js ''999-06'') \<noteq> 7"
    by (simp_all add: js_def)
  have f: "fallbackYearAsStated (js ''abc 12345 def'') = js ''Unknown''"
    using long_run_example by (simp add: fallbackYearAsStated_def)
  show ?thesis
    using n f long_run_example short_year_example by simp
qed

text \<open>
  C5, as the code has it. \<open>extractYear\<close> and \<open>extractYearMonth\<close> answer \<open>Unknown\<close> for
  an absent or empty date. When the date does not parse as a calendar date,
  \<open>extractYear\<close> answers the four digits at the leftmost position where four consecutive
  digits stand, also when more digits follow them, and \<open>Unknown\<close> when there is no such
  position; \<open>extractYearMonth\<close> then answers \<open>Unknown\<close>, having no such fallback. When
  the date parses, \<open>extractYear\<close> answers the decimal numeral of the year, which has
  four digits for the years 1000 to 9999 and is not padded, and \<open>extractYearMonth\<close>
  that numeral, a hyphen and the month number (1 to 12) with two digits.
\<close>

theorem date_classifier:
  "extractYear H None = js ''Unknown'' \<and> extractYear H (Some []) = js ''Unknown'' \<and>
   extractYearMonth H None = js ''Unknown'' \<and> extractYearMonth H (Some []) = js ''Unknown'' \<and>
   (s \<noteq> [] \<and> newDate H s = None \<longrightarrow>
      (fourDigitsAt s i \<and> (\<forall>j<i. \<not> fourDigitsAt s j)
         \<longrightarrow> extractYear H (Some s) = take 4 (drop i s)) \<and>
      ((\<forall>k. \<not> fourDigitsAt s k) \<longrightarrow> extractYear H (Some s) = js ''Unknown'') \<and>
      extractYearMonth H (Some s) = js ''Unknown'') \<and>
   (s \<noteq> [] \<and> newDate H s = Some d \<longrightarrow>
      extractYear H (Some s) = intToString (getFullYear d) \<and>
      (1000 \<le> getFullYear d \<and> getFullYear d \<le> 9999 \<longrightarrow>
         length (extractYear H (Some s)) = 4 \<and> list_all isDigit (extractYear H (Some s))) \<and>
      (getMonth d < 12 \<longrightarrow>
         extractYearMonth H (Some s)
         = intToString (getFullYear d) @ js ''-'' @ twoDigits (getMonth d + 1)))"
proof -
  have absent: "extractYear H None = js ''Unknown''" "extractYear H (Some []) = js ''Unknown''"
    "extractYearMonth H None = js ''Unknown''" "extractYearMonth H (Some []) = js ''Unknown''"
    by (simp_all add: extractYear_def extractYearMonth_def)
  have fallback: "extractYear H (Some s) = take 4 (drop i s)"
    if "s \<noteq> []" "newDate H s = None" "fourDigitsAt s i" "\<forall>j<i. \<not> fourDigitsAt s j"
    using that matchFourDigits_first [of s i] by (simp add: extractYear_def)
  have nofallback: "extractYear H (Some s) = js ''Unknown''"
    if "s \<noteq> []" "newDate H s = None" "\<forall>k. \<not> fourDigitsAt s k"
    using that matchFourDigits_none [of s] by (simp add: extractYear_def)
  have ym_none: "extractYearMonth H (Some s) = js ''Unknown''"
    if "s \<noteq> []" "newDate H s = None"
    using that by (simp add: extractYearMonth_def)
  have y_some: "extractYear H (Some s) = intToString (getFullYear d)"
    if "s \<noteq> []" "newDate H s = Some d"
    using that by (simp add: extractYear_def)
  have y_four: "length (extractYear H (Some s)) = 4 \<and> list_all isDigit (extractYear H (Some s))"
    if "s \<noteq> []" "newDate H s = Some d" "1000 \<le> getFullYear d" "getFullYear d \<le> 9999"
    unfolding y_some [OF that(1,2)] using that(3,4) by (rule intToString_four_digits)
  have ym_some: "extractYearMonth H (Some s)
                 = intToString (getFullYear d) @ js ''-'' @ twoDigits (getMonth d + 1)"
    if "s \<noteq> []" "newDate H s = Some d" "getMonth d < 12"
    using that padStart_month [of "getMonth d + 1"]
    by (simp add: extractYearMonth_def Let_def)
  show ?thesis
    using absent fallback nofallback ym_none y_some y_four ym_some by blast
qed

theorem date_classifier_witness:
  "js ''Q1 2024'' \<noteq> [] \<and> newDate sampleHost (js ''Q1 2024'') = None \<and>
   fourDigitsAt (js ''Q1 2024'') 3 \<and> \<not> fourDigitsAt (js ''Q1 2024'') 0 \<and>
   \<not> fourDigitsAt (js ''Q1 2024'') 1 \<and> \<not> fourDigitsAt (js ''Q1 2024'') 2 \<and>
   extractYear sampleHost (Some (js ''Q1 2024'')) = js ''2024'' \<and>
   extractYearMonth sampleHost (Some (js ''Q1 2024'')) = js ''Unknown'' \<and>
   js ''n/a'' \<noteq> [] \<and> newDate sampleHost (js ''n/a'') = None \<and>
   (\<forall>k. \<not> fourDigitsAt (js ''n/a'') k) \<and>
   extractYear sampleHost (Some (js ''n/a'')) = js ''Unknown'' \<and>
   js ''2024-02-20'' \<noteq> [] \<and>
   newDate sampleHost (js ''2024-02-20'') = Some \<lparr>getFullYear = 2024, getMonth = 1\<rparr> \<and>
   getMonth \<lparr>getFullYear = 2024, getMonth = 1\<rparr> < 12 \<and>
   1000 \<le> getFullYear \<lparr>getFullYear = 2024, getMonth = 1\<rparr> \<and>
   getFullYear \<lparr>getFullYear = 2024, getMonth = 1\<rparr> \<le> 9999 \<and>
   length (extractYear sampleHost (Some (js ''2024-02-20''))) = 4 \<and>
   extractYear sampleHost (Some (js ''2024-02-20'')) = js ''2024'' \<and>
   extractYearMonth sampleHost (Some (js ''2024-02-20'')) = js ''2024-02''"
proof -
  let ?d = "\<lparr>getFullYear = 2024, getMonth = 1\<rparr>"
  have ne: "js ''Q1 2024'' \<noteq> []" "js ''n/a'' \<noteq> []" "js ''2024-02-20'' \<noteq> []"
    by (simp_all add: js_def)
  have na: "\<forall>k. \<not> fourDigitsAt (js ''n/a'') k"
    by (simp add: fourDigitsAt_def js_def)
  have m: "getMonth ?d < 12" "1000 \<le> getFullYear ?d" "getFullYear ?d \<le> 9999" by simp_all
  have t4: "take 4 (drop 3 (js ''Q1 2024'')) = js ''2024''" by (simp add: js_def)
  have r: "intToString (getFullYear ?d) = js ''2024''"
    "js ''2024'' @ js ''-'' @ twoDigits (getMonth ?d + 1) = js ''2024-02''"
    by (simp_all add: intToString_def decimal.simps twoDigits_def js_def)
  note q = date_classifier [of sampleHost "js ''Q1 2024''" 3 ?d]
  note n = date_classifier [of sampleHost "js ''n/a''" 0 ?d]
  note i = date_classifier [of sampleHost "js ''2024-02-20''" 0 ?d]
  from q ne(1) sample_newDate q1_four_digits
  have 1: "extractYear sampleHost (Some (js ''Q1 2024'')) = take 4 (drop 3 (js ''Q1 2024''))"
    and 2: "extractYearMonth sampleHost (Some (js ''Q1 2024'')) = js ''Unknown''"
    by blast+
  from n ne(2) sample_newDate na
  have 3: "extractYear sampleHost (Some (js ''n/a'')) = js ''Unknown''" by blast
  from i ne(3) sample_newDate m
  have 6: "length (extractYear sampleHost (Some (js ''2024-02-20''))) = 4" by blast
  from i ne(3) sample_newDate m
  have 4: "extractYear sampleHost (Some (js ''2024-02-20'')) = intToString (getFullYear ?d)"
    and 5: "extractYearMonth sampleHost (Some (js ''2024-02-20''))
            = intToString (getFullYear ?d) @ js ''-'' @ twoDigits (getMonth ?d + 1)"
    by blast+
  have q3: "\<not> fourDigitsAt (js ''Q1 2024'') 0" "\<not> fourDigitsAt (js ''Q1 2024'') 1"
    "\<not> fourDigitsAt (js ''Q1 2024'') 2"
    using q1_four_digits by simp_all
  show ?thesis
    using ne sample_newDate q1_four_digits q3 na m 1 2 3 4 5 6 unfolding t4 r by blast
qed

end
